theory Spec2Isabelle
  imports Complex_Main
begin

section \<open>Conventions of the embedding\<close>

text \<open>
  The development embeds the signal front end (\<^verbatim>\<open>audio_processor.cpp\<close>), the neural
  voice-activity detector (\<^verbatim>\<open>vad_detector.cpp\<close>), the capture callback
  (\<^verbatim>\<open>audio_recorder.cpp\<close>) and the greedy CTC decoder (\<^verbatim>\<open>asr_model.cpp\<close>).

  \<^item> A \<^verbatim>\<open>std::vector<float>\<close> is a \<open>real list\<close>: \<^verbatim>\<open>float\<close> arithmetic is read as exact
    real arithmetic, so the theorems speak about the order of the operations and the
    indices, not about rounding.
  \<^item> \<^verbatim>\<open>int\<close> is 32 bits and \<^verbatim>\<open>size_t\<close> is 64 bits (LP64); where the source mixes the
    two, the conversions are written out with \<open>mod\<close>.
  \<^item> An exception that leaves the function, and an access outside a vector, is a value
    \<open>Inl\<close> of the result; \<open>Inr\<close> is a normal return.
  \<^item> The ONNX session and the FFTW transform are parameters of the model.
\<close>

datatype fault =
    DivByZero      \<comment> \<open>integer division by zero\<close>
  | OutOfRange     \<comment> \<open>read or write outside a vector\<close>
  | LengthError    \<comment> \<open>\<^verbatim>\<open>std::length_error\<close> from \<^verbatim>\<open>reserve\<close> or \<^verbatim>\<open>resize\<close>\<close>
  | IntOverflow    \<comment> \<open>signed overflow of an \<^verbatim>\<open>int\<close>\<close>
  | BadCast        \<comment> \<open>a floating value outside the range of the integer it is cast to\<close>

definition to_size_t :: "int \<Rightarrow> int" where
  \<comment> \<open>conversion to the unsigned 64-bit \<^verbatim>\<open>size_t\<close>\<close>
  "to_size_t x = x mod 2 ^ 64"

definition to_int32 :: "int \<Rightarrow> int" where
  \<comment> \<open>\<^verbatim>\<open>static_cast<int>\<close> of an unsigned value: the low 32 bits, read as two's complement\<close>
  "to_int32 x = (x + 2 ^ 31) mod 2 ^ 32 - 2 ^ 31"

definition in_int32 :: "int \<Rightarrow> bool" where
  "in_int32 x \<longleftrightarrow> - (2 ^ 31) \<le> x \<and> x < 2 ^ 31"

definition c_div :: "int \<Rightarrow> int \<Rightarrow> int" where
  \<comment> \<open>\<^verbatim>\<open>int\<close> division of C++: the quotient is truncated toward zero\<close>
  "c_div a b = sgn a * sgn b * (\<bar>a\<bar> div \<bar>b\<bar>)"

section \<open>Signal front end (\<^verbatim>\<open>audio_processor.cpp\<close>)\<close>

record ap_config =
  ap_sample_rate :: int
  frame_length :: int
  frame_shift :: int
  n_mels :: int
  n_fft :: int
  preemphasis :: real

definition default_ap_config :: ap_config where
  \<comment> \<open>the member initialisers of \<^verbatim>\<open>AudioProcessor::Config\<close>\<close>
  "default_ap_config =
     \<lparr>ap_sample_rate = 16000, frame_length = 400, frame_shift = 160,
      n_mels = 80, n_fft = 512, preemphasis = 97 / 100\<rparr>"

record audio_processor =
  config :: ap_config
  cmvn_loaded :: bool
  cmvn_mean :: "real list"
  cmvn_var :: "real list"
  mel_filterbank :: "real list list"
  window :: "real list"

definition bind_fault :: "fault + 'a \<Rightarrow> ('a \<Rightarrow> fault + 'b) \<Rightarrow> fault + 'b" where
  \<comment> \<open>sequencing: a fault of the first computation ends the second\<close>
  "bind_fault m f = (case m of Inl e \<Rightarrow> Inl e | Inr x \<Rightarrow> f x)"

subsection \<open>Mel filterbank\<close>

definition hz_to_mel :: "real \<Rightarrow> real" where
  "hz_to_mel hz = 2595 * log 10 (1 + hz / 700)"

definition mel_to_hz :: "real \<Rightarrow> real" where
  "mel_to_hz mel = 700 * (10 powr (mel / 2595) - 1)"

definition mel_points :: "ap_config \<Rightarrow> real list" where
  "mel_points cfg =
     (let num_filters = n_mels cfg;
          nyquist = real_of_int (ap_sample_rate cfg) / 2;
          mel_max = hz_to_mel nyquist
      in map (\<lambda>i. real i * mel_max / real_of_int (num_filters + 1))
           [0..<nat (num_filters + 2)])"

definition hz_points :: "ap_config \<Rightarrow> real list" where
  "hz_points cfg = map mel_to_hz (mel_points cfg)"

definition bin_points :: "ap_config \<Rightarrow> int list" where
  "bin_points cfg =
     (let fft_size = c_div (n_fft cfg) 2 + 1
      in map (\<lambda>hz. min \<lfloor>real_of_int (n_fft cfg + 1) * hz / real_of_int (ap_sample_rate cfg)\<rfloor>
                        (fft_size - 1))
           (hz_points cfg))"

fun fill_loop :: "bool \<Rightarrow> (int \<Rightarrow> real) \<Rightarrow> int list \<Rightarrow> real list \<Rightarrow> fault + real list" where
  \<comment> \<open>\<^verbatim>\<open>for (j ...) if (guard) row[j] = f(j)\<close>, the write checked against the vector\<close>
  "fill_loop guard f [] row = Inr row"
| "fill_loop guard f (j # js) row =
     (if guard then
        (if 0 \<le> j \<and> nat j < length row
         then fill_loop guard f js (row[nat j := f j])
         else Inl OutOfRange)
      else fill_loop guard f js row)"

definition mel_filter :: "nat \<Rightarrow> int \<Rightarrow> int \<Rightarrow> int \<Rightarrow> fault + real list" where
  \<comment> \<open>one triangular filter, from \<open>start = bin_points[i]\<close>, \<open>center = bin_points[i + 1]\<close>
      and \<open>end_bin = bin_points[i + 2]\<close>\<close>
  "mel_filter fft_size start center end_bin =
     bind_fault
       (fill_loop (center \<noteq> start)
          (\<lambda>j. real_of_int (j - start) / real_of_int (center - start))
          [start..center - 1] (replicate fft_size 0))
       (fill_loop (end_bin \<noteq> center)
          (\<lambda>j. real_of_int (end_bin - j) / real_of_int (end_bin - center))
          [center..end_bin - 1])"

fun collect_faults :: "(fault + 'a) list \<Rightarrow> fault + 'a list" where
  \<comment> \<open>the results of a loop body, in order, up to the first fault\<close>
  "collect_faults [] = Inr []"
| "collect_faults (r # rs) =
     bind_fault r (\<lambda>x. bind_fault (collect_faults rs) (\<lambda>xs. Inr (x # xs)))"

definition triangular_filters :: "nat \<Rightarrow> int list \<Rightarrow> nat \<Rightarrow> fault + real list list" where
  "triangular_filters fft_size bins num_filters =
     collect_faults
       (map (\<lambda>i. mel_filter fft_size (bins ! i) (bins ! (i + 1)) (bins ! (i + 2)))
          [0..<num_filters])"

definition initializeMelFilterbank :: "ap_config \<Rightarrow> fault + real list list" where
  \<comment> \<open>\<^verbatim>\<open>resize\<close> with a negative count throws: for the filterbank itself, and for
      the first filter when there is one\<close>
  "initializeMelFilterbank cfg =
     (if n_mels cfg < 0 \<or> (0 < n_mels cfg \<and> c_div (n_fft cfg) 2 + 1 < 0)
      then Inl LengthError
      else triangular_filters (nat (c_div (n_fft cfg) 2 + 1)) (bin_points cfg)
             (nat (n_mels cfg)))"

subsection \<open>Window\<close>

definition createHammingWindow :: "int \<Rightarrow> fault + real list" where
  \<comment> \<open>a vector of a negative size cannot be constructed\<close>
  "createHammingWindow sz =
     (if sz < 0 then Inl LengthError
      else Inr (map (\<lambda>i. 54 / 100 - 46 / 100 * cos (2 * pi * real i / real_of_int (sz - 1)))
                  [0..<nat sz]))"

subsection \<open>CMVN statistics\<close>

definition loadCMVN :: "audio_processor \<Rightarrow> fault + audio_processor" where
  \<comment> \<open>the source fills in constant statistics of \<open>n_mels\<close> entries; \<^verbatim>\<open>assign\<close> with a
      negative count throws\<close>
  "loadCMVN ap =
     (if n_mels (config ap) < 0 then Inl LengthError
      else Inr (ap\<lparr>cmvn_mean := replicate (nat (n_mels (config ap))) 0,
                    cmvn_var := replicate (nat (n_mels (config ap))) 1,
                    cmvn_loaded := True\<rparr>))"

definition cmvn_frame :: "real list \<Rightarrow> real list \<Rightarrow> real list \<Rightarrow> fault + real list" where
  \<comment> \<open>\<^verbatim>\<open>for (i = 0; i < frame.size() && i < cmvn_mean_.size(); ++i)\<close>; the read of
      \<^verbatim>\<open>cmvn_var_[i]\<close> is checked\<close>
  "cmvn_frame mean var frame =
     (if min (length frame) (length mean) \<le> length var
      then Inr (map (\<lambda>i. if i < length mean
                           then (frame ! i - mean ! i) / sqrt (var ! i)
                           else frame ! i)
                  [0..<length frame])
      else Inl OutOfRange)"

definition applyCMVN :: "audio_processor \<Rightarrow> real list list \<Rightarrow> fault + real list list" where
  "applyCMVN ap features =
     (if \<not> cmvn_loaded ap \<or> features = [] then Inr features
      else collect_faults (map (cmvn_frame (cmvn_mean ap) (cmvn_var ap)) features))"

subsection \<open>Preemphasis\<close>

fun preemphasis_loop :: "real \<Rightarrow> nat \<Rightarrow> real list \<Rightarrow> real list" where
  \<comment> \<open>\<^verbatim>\<open>for (i = n; i > 0; --i) result[i] = result[i] - a * result[i - 1]\<close>\<close>
  "preemphasis_loop a 0 result = result"
| "preemphasis_loop a (Suc i) result =
     preemphasis_loop a i (result[Suc i := result ! Suc i - a * result ! i])"

definition preprocess :: "ap_config \<Rightarrow> real list \<Rightarrow> fault + real list" where
  \<comment> \<open>on an empty vector \<^verbatim>\<open>result.size() - 1\<close> wraps to the largest \<^verbatim>\<open>size_t\<close> and the first
      iteration indexes outside the vector\<close>
  "preprocess cfg audio =
     (if preemphasis cfg > 0 then
        (if audio = [] then Inl OutOfRange
         else Inr (preemphasis_loop (preemphasis cfg) (length audio - 1) audio))
      else Inr audio)"

subsection \<open>Framing\<close>

definition frame_at :: "ap_config \<Rightarrow> real list \<Rightarrow> int \<Rightarrow> fault + real list" where
  \<comment> \<open>the body of the framing loop for frame \<open>i\<close>\<close>
  "frame_at cfg signal i =
     (let start = i * frame_shift cfg;
          end_idx = start + frame_length cfg
      in if \<not> in_int32 start \<or> \<not> in_int32 end_idx then Inl IntOverflow
         else if end_idx \<le> int (length signal) then
           (if 0 \<le> start \<and> start \<le> end_idx
            then Inr (take (nat (end_idx - start)) (drop (nat start) signal))
            else Inl OutOfRange)
         else if 0 \<le> start \<and> start \<le> int (length signal) then
           (if frame_length cfg < 0 then Inl LengthError
            else Inr (take (nat (frame_length cfg))
                        (drop (nat start) signal @ replicate (nat (frame_length cfg)) 0)))
         else Inl OutOfRange)"

definition num_frames_of :: "ap_config \<Rightarrow> nat \<Rightarrow> fault + int" where
  \<comment> \<open>\<^verbatim>\<open>static_cast<int>((signal.size() - frame_length) / frame_shift) + 1\<close>: the
      subtraction and the division are in \<^verbatim>\<open>size_t\<close>\<close>
  "num_frames_of cfg sz =
     (if to_size_t (frame_shift cfg) = 0 then Inl DivByZero
      else
        (let q = to_int32 (to_size_t (int sz - to_size_t (frame_length cfg))
                            div to_size_t (frame_shift cfg))
         in if q = 2 ^ 31 - 1 then Inl IntOverflow else Inr (q + 1)))"

definition frameSignal :: "ap_config \<Rightarrow> real list \<Rightarrow> fault + real list list" where
  \<comment> \<open>\<^verbatim>\<open>frames.reserve(num_frames)\<close> converts a negative count to a \<^verbatim>\<open>size_t\<close> above
      \<^verbatim>\<open>max_size()\<close> and throws\<close>
  "frameSignal cfg signal =
     bind_fault (num_frames_of cfg (length signal))
       (\<lambda>num_frames.
          if num_frames < 0 then Inl LengthError
          else collect_faults (map (\<lambda>i. frame_at cfg signal (int i)) [0..<nat num_frames]))"

subsection \<open>Filterbank features\<close>

definition windowed_frame :: "audio_processor \<Rightarrow> real list \<Rightarrow> fault + real list" where
  \<comment> \<open>the frame times the window, written into \<open>n_fft\<close> zeros\<close>
  "windowed_frame ap frame =
     (let copy_len = min (length frame) (length (window ap)) in
      if n_fft (config ap) < 0 then Inl LengthError
      else if copy_len > nat (n_fft (config ap)) then Inl OutOfRange
      else Inr (map (\<lambda>i. frame ! i * window ap ! i) [0..<copy_len]
                @ replicate (nat (n_fft (config ap)) - copy_len) 0))"

definition computePowerSpectrum :: "complex list \<Rightarrow> real list" where
  "computePowerSpectrum fft_result = map (\<lambda>val. cmod val * cmod val) fft_result"

definition applyMelFilterbank :: "audio_processor \<Rightarrow> real list \<Rightarrow> fault + real list" where
  \<comment> \<open>row \<open>i\<close> of the filterbank is read for every \<open>i < n_mels\<close>\<close>
  "applyMelFilterbank ap power_spectrum =
     (if n_mels (config ap) < 0 then Inl LengthError
      else if nat (n_mels (config ap)) > length (mel_filterbank ap) then Inl OutOfRange
      else Inr (map (\<lambda>row. foldl (\<lambda>acc (p, w). acc + p * w) 0 (zip power_spectrum row))
                  (take (nat (n_mels (config ap))) (mel_filterbank ap))))"

definition fbank_frame ::
  "(real list \<Rightarrow> complex list) \<Rightarrow> audio_processor \<Rightarrow> real list \<Rightarrow> fault + real list" where
  \<comment> \<open>the body of the loop of \<^verbatim>\<open>computeFbank\<close>; \<open>fft\<close> is the FFTW transform\<close>
  "fbank_frame fft ap frame =
     bind_fault (windowed_frame ap frame)
       (\<lambda>w. bind_fault (applyMelFilterbank ap (computePowerSpectrum (fft w)))
          (\<lambda>mel_features. Inr (map (\<lambda>val. ln (max val (1 / 10 ^ 10))) mel_features)))"

definition computeFbank ::
  "(real list \<Rightarrow> complex list) \<Rightarrow> audio_processor \<Rightarrow> real list \<Rightarrow> fault + real list list" where
  "computeFbank fft ap audio =
     bind_fault (frameSignal (config ap) audio)
       (\<lambda>frames. collect_faults (map (fbank_frame fft ap) frames))"

subsection \<open>Low frame rate\<close>

definition applyLFR :: "real list list \<Rightarrow> real list list" where
  \<comment> \<open>\<open>lfr_m = 7\<close>, \<open>lfr_n = 6\<close>\<close>
  "applyLFR features =
     (if features = [] then features
      else map (\<lambda>q. concat (map (\<lambda>j. if q * 6 + j < length features
                                       then features ! (q * 6 + j)
                                       else features ! (length features - 1))
                              [0..<7]))
             [0..<(length features + 5) div 6])"

subsection \<open>Feature extraction\<close>

definition extractFeatures ::
  "(real list \<Rightarrow> complex list) \<Rightarrow> audio_processor \<Rightarrow> real list \<Rightarrow> fault + real list list" where
  "extractFeatures fft ap audio =
     bind_fault (preprocess (config ap) audio)
       (\<lambda>preprocessed_audio.
          bind_fault (computeFbank fft ap preprocessed_audio)
            (\<lambda>fbank_features.
               if cmvn_loaded ap then applyCMVN ap (applyLFR fbank_features)
               else Inr (applyLFR fbank_features)))"

definition initialize :: "ap_config \<Rightarrow> bool \<Rightarrow> fault + audio_processor" where
  \<comment> \<open>\<^verbatim>\<open>AudioProcessor::initialize\<close> on a newly constructed processor; the flag says whether
      \<^verbatim>\<open>cmvn_file\<close> is non-empty\<close>
  "initialize cfg has_cmvn_file =
     bind_fault (initializeMelFilterbank cfg)
       (\<lambda>fb. bind_fault (createHammingWindow (frame_length cfg))
          (\<lambda>w. let ap = \<lparr>config = cfg, cmvn_loaded = False, cmvn_mean = [], cmvn_var = [],
                           mel_filterbank = fb, window = w\<rparr>
                in if has_cmvn_file then loadCMVN ap else Inr ap))"

subsection \<open>Normalisation of every dimension, in the words of the specification\<close>

definition normalized_every_dimension ::
  "real list \<Rightarrow> real list \<Rightarrow> real list \<Rightarrow> real list \<Rightarrow> bool" where
  \<comment> \<open>frame \<open>y\<close> is frame \<open>x\<close> with every dimension \<open>d\<close> of \<open>x\<close> normalised by the
      statistics of \<open>d\<close>\<close>
  "normalized_every_dimension mean var x y \<longleftrightarrow>
     length y = length x \<and>
     list_all (\<lambda>d. d < length mean \<and> d < length var \<and>
                    y ! d = (x ! d - mean ! d) / sqrt (var ! d))
       [0..<length x]"

subsection \<open>A triangular filter in closed form\<close>

definition triangle :: "nat \<Rightarrow> int \<Rightarrow> int \<Rightarrow> int \<Rightarrow> real list" where
  \<comment> \<open>the weights the two loops of \<open>mel_filter\<close> leave for ordered bins in range\<close>
  "triangle fft_size start center end_bin =
     map (\<lambda>i. if center \<le> int i \<and> int i < end_bin
               then real_of_int (end_bin - int i) / real_of_int (end_bin - center)
               else if start \<le> int i \<and> int i < center
               then real_of_int (int i - start) / real_of_int (center - start)
               else 0)
       [0..<fft_size]"

section \<open>Greedy CTC decoding (\<^verbatim>\<open>asr_model.cpp\<close>)\<close>

fun argmax_loop :: "real list \<Rightarrow> nat \<Rightarrow> nat list \<Rightarrow> nat \<times> real \<Rightarrow> nat \<times> real" where
  \<comment> \<open>the inner loop over \<open>v\<close>, carrying \<open>(max_token, max_prob)\<close>\<close>
  "argmax_loop logits base [] (max_token, max_prob) = (max_token, max_prob)"
| "argmax_loop logits base (v # vs) (max_token, max_prob) =
     (if logits ! (base + v) > max_prob
      then argmax_loop logits base vs (v, logits ! (base + v))
      else argmax_loop logits base vs (max_token, max_prob))"

definition argmax_at :: "real list \<Rightarrow> nat \<Rightarrow> nat \<Rightarrow> nat" where
  "argmax_at logits base vocab_size =
     fst (argmax_loop logits base [1..<vocab_size] (0, logits ! base))"

fun ctc_loop ::
  "int \<Rightarrow> real list \<Rightarrow> int \<Rightarrow> nat list \<Rightarrow> int \<Rightarrow> int list \<Rightarrow> fault + int list" where
  \<comment> \<open>the loop over \<open>t\<close>, carrying \<open>prev_token\<close> and \<open>tokens\<close>; the reads of step \<open>t\<close> are at
      \<open>t * vocab_size\<close> and at the \<open>vocab_size - 1\<close> places after it, the indices are
      computed in \<^verbatim>\<open>int\<close> and converted to \<^verbatim>\<open>size_t\<close> by \<^verbatim>\<open>operator[]\<close>\<close>
  "ctc_loop blank_id logits vocab_size [] prev_token tokens = Inr tokens"
| "ctc_loop blank_id logits vocab_size (t # ts) prev_token tokens =
     (let base = int t * vocab_size in
      if \<not> in_int32 base \<or> \<not> in_int32 (base + max 1 vocab_size - 1) then Inl IntOverflow
      else if base < 0 \<or> int (length logits) < base + max 1 vocab_size then Inl OutOfRange
      else
        (let max_token = int (argmax_at logits (nat base) (nat vocab_size)) in
         ctc_loop blank_id logits vocab_size ts max_token
           (if max_token \<noteq> blank_id \<and> max_token \<noteq> prev_token
            then tokens @ [max_token] else tokens)))"

definition decodeCTC :: "int \<Rightarrow> real list \<Rightarrow> int \<Rightarrow> fault + int list" where
  \<comment> \<open>\<^verbatim>\<open>logits.size() / sequence_length\<close> is a \<^verbatim>\<open>size_t\<close> division: a zero length divides
      by zero, a negative length converts to a divisor above every vector size; the
      quotient is stored in an \<^verbatim>\<open>int\<close>\<close>
  "decodeCTC blank_id logits sequence_length =
     (if sequence_length = 0 then Inl DivByZero
      else if sequence_length < 0 then Inr []
      else ctc_loop blank_id logits (to_int32 (int (length logits div nat sequence_length)))
             [0..<nat sequence_length] (-1) [])"

subsection \<open>The decoding rule in the words of the specification\<close>

definition lowest_argmax :: "real list \<Rightarrow> nat" where
  \<comment> \<open>the argmax of a row, ties broken toward the lowest index\<close>
  "lowest_argmax row = (LEAST i. i < length row \<and> (\<forall>j<length row. row ! j \<le> row ! i))"

definition ctc_collapse :: "int \<Rightarrow> int list \<Rightarrow> int list" where
  \<comment> \<open>from the raw per-step argmax: the steps whose token is not blank and differs
      from the raw token of the step before\<close>
  "ctc_collapse blankId raw =
     map (\<lambda>t. raw ! t)
       (filter (\<lambda>t. raw ! t \<noteq> blankId \<and> (t = 0 \<or> raw ! t \<noteq> raw ! (t - 1)))
          [0..<length raw])"

definition is_low_argmax :: "real list \<Rightarrow> nat \<Rightarrow> nat \<Rightarrow> nat \<Rightarrow> bool" where
  \<comment> \<open>\<open>m\<close> is the first maximum among the \<open>k\<close> entries from \<open>base\<close>\<close>
  "is_low_argmax logits base k m \<longleftrightarrow>
     m < k \<and> (\<forall>j<k. logits ! (base + j) \<le> logits ! (base + m))
         \<and> (\<forall>j<m. logits ! (base + j) < logits ! (base + m))"

section \<open>Neural voice-activity detector (\<^verbatim>\<open>vad_detector.cpp\<close>)\<close>

record vad_config =
  vad_sample_rate :: int
  window_size :: nat
  context_size :: nat
  history_size :: nat

text \<open>
  The ONNX session is a function of the three input tensors the source builds (the
  samples, the hidden state and the sample rate) to the list of output tensors;
  \<open>None\<close> is a run that throws. The sizes of the configuration are non-negative.
\<close>

type_synonym engine = "real list \<Rightarrow> real list \<Rightarrow> int \<Rightarrow> real list list option"

record VADDetector =
  vad_cfg :: vad_config
  session :: "engine option"
  state_h :: "real list"
  state_c :: "real list"
  context_buf :: "real list"
  prob_history :: "real list"

definition reset :: "VADDetector \<Rightarrow> VADDetector" where
  "reset d =
     d\<lparr>state_h := replicate (2 * 1 * 128) 0,
       state_c := replicate (2 * 1 * 128) 0,
       context_buf := replicate (1 * context_size (vad_cfg d)) 0,
       prob_history := []\<rparr>"

definition fit_window :: "nat \<Rightarrow> real list \<Rightarrow> real list" where
  \<comment> \<open>\<open>input_audio\<close>: the samples cut or zero-padded to \<open>window_size\<close>\<close>
  "fit_window ws audio =
     (if length audio \<noteq> ws then
        (if length audio > ws then take ws audio
         else audio @ replicate (ws - length audio) 0)
      else audio)"

definition copy_state :: "real list \<Rightarrow> real list \<Rightarrow> fault + real list" where
  \<comment> \<open>\<^verbatim>\<open>std::copy(src, src + dst.size(), dst.begin())\<close> from an output tensor\<close>
  "copy_state src dst =
     (if length dst \<le> length src then Inr (take (length dst) src) else Inl OutOfRange)"

definition update_states :: "real list list \<Rightarrow> VADDetector \<Rightarrow> fault + VADDetector" where
  "update_states output_tensors d =
     (if length output_tensors > 2 then
        bind_fault (copy_state (output_tensors ! 1) (state_h d))
          (\<lambda>h. bind_fault (copy_state (output_tensors ! 2) (state_c d))
             (\<lambda>c. Inr (d\<lparr>state_h := h, state_c := c\<rparr>)))
      else if length output_tensors > 1 then
        bind_fault (copy_state (output_tensors ! 1) (state_h d))
          (\<lambda>h. Inr (d\<lparr>state_h := h\<rparr>))
      else Inr d)"

definition smooth :: "real \<Rightarrow> VADDetector \<Rightarrow> real \<times> VADDetector" where
  \<comment> \<open>\<^verbatim>\<open>push_back\<close>, \<^verbatim>\<open>pop_front\<close> above \<open>history_size\<close>, and the mean\<close>
  "smooth prob d =
     (let pushed = prob_history d @ [prob];
          hist = (if length pushed > history_size (vad_cfg d) then tl pushed else pushed)
      in (foldl (+) 0 hist / real (length hist), d\<lparr>prob_history := hist\<rparr>))"

definition model_input :: "VADDetector \<Rightarrow> real list \<Rightarrow> real list" where
  \<comment> \<open>\<open>x\<close>: \<open>context_size + window_size\<close> zeros, the context copied to its start, the
      fitted samples copied behind the first \<open>context_size\<close> places\<close>
  "model_input d audio =
     (let ws = window_size (vad_cfg d);
          cs = context_size (vad_cfg d)
      in take cs (context_buf d @ replicate (cs + ws - length (context_buf d)) 0)
           @ fit_window ws audio)"

definition detectVAD :: "VADDetector \<Rightarrow> real list \<Rightarrow> fault + (real \<times> VADDetector)" where
  \<comment> \<open>the copies of the context out of and back into \<^verbatim>\<open>context_\<close> need a context of
      at least \<open>context_size\<close> and at most \<open>context_size + window_size\<close> entries; an
      exception of the run is caught and gives 0\<close>
  "detectVAD d audio =
     (case session d of
        None \<Rightarrow> Inr (0, d)
      | Some run \<Rightarrow>
          (let ws = window_size (vad_cfg d);
               cs = context_size (vad_cfg d)
           in if length (context_buf d) > cs + ws \<or> length (context_buf d) < cs then Inl OutOfRange
              else
                (let x = model_input d audio;
                     d1 = d\<lparr>context_buf := drop (length x - cs) x @ drop cs (context_buf d)\<rparr>
                 in case run x (state_h d1) (vad_sample_rate (vad_cfg d)) of
                      None \<Rightarrow> Inr (0, d1)
                    | Some output_tensors \<Rightarrow>
                        (if output_tensors = [] then Inl OutOfRange
                         else if output_tensors ! 0 = [] then Inl OutOfRange
                         else bind_fault (update_states output_tensors d1)
                                (\<lambda>d2. Inr (smooth (output_tensors ! 0 ! 0) d2))))))"

fun run_detector :: "VADDetector \<Rightarrow> real list list \<Rightarrow> fault + real list" where
  \<comment> \<open>the probabilities a detector returns for a sequence of frames\<close>
  "run_detector d [] = Inr []"
| "run_detector d (audio # rest) =
     bind_fault (detectVAD d audio)
       (\<lambda>(prob, d'). bind_fault (run_detector d' rest) (\<lambda>probs. Inr (prob # probs)))"

definition mean :: "real list \<Rightarrow> real" where
  "mean xs = sum_list xs / real (length xs)"

subsection \<open>A small detector for concrete runs\<close>

definition example_engine :: engine where
  \<comment> \<open>a deterministic engine with three outputs: the probability depends on the input
      and on the hidden state, and the hidden state counts the calls\<close>
  "example_engine x h sr =
     Some [[(x ! 1 + h ! 0) / 10], map (\<lambda>v. v + 1) h, map (\<lambda>v. v + 2) h]"

definition example_detector :: VADDetector where
  \<comment> \<open>windows of two samples, one sample of context, a history of ten; the state is
      what a session has left behind\<close>
  "example_detector =
     \<lparr>vad_cfg = \<lparr>vad_sample_rate = 16000, window_size = 2, context_size = 1,
                 history_size = 10\<rparr>,
      session = Some example_engine,
      state_h = replicate 256 7, state_c = replicate 256 8,
      context_buf = [9], prob_history = [1, 1, 1]\<rparr>"

definition failing_engine :: engine where
  \<comment> \<open>an engine whose every run throws\<close>
  "failing_engine x h sr = None"

section \<open>Capture callback (\<^verbatim>\<open>audio_recorder.cpp\<close>)\<close>

record recorder_config =
  rec_sample_rate :: int
  channels :: int
  frames_per_buffer :: int
  silence_duration :: real
  max_record_time :: real
  trigger_threshold :: real
  stop_threshold :: real
  vad_type :: string

definition default_recorder_config :: recorder_config where
  "default_recorder_config =
     \<lparr>rec_sample_rate = 16000, channels = 1, frames_per_buffer = 512,
      silence_duration = 1, max_record_time = 5, trigger_threshold = 6 / 10,
      stop_threshold = 35 / 100, vad_type = ''energy''\<rparr>"

text \<open>
  Times are seconds on the steady clock; the time of a callback is an argument of the
  step. The detector the recorder points to is part of its state.
\<close>

record AudioRecorder =
  rec_cfg :: recorder_config
  audio_buffer :: "real list"
  pre_speech_buffer :: "real list"
  vad_buffer :: "real list"
  speech_detected :: bool
  should_stop :: bool
  last_speech_time :: real
  recording_start_time :: real
  vad_detector :: "VADDetector option"

definition useEnergyVAD :: "recorder_config \<Rightarrow> bool" where
  "useEnergyVAD cfg \<longleftrightarrow> vad_type cfg = ''energy''"

definition useSileroVAD :: "recorder_config \<Rightarrow> bool" where
  "useSileroVAD cfg \<longleftrightarrow> vad_type cfg = ''silero''"

definition computeEnergyVAD :: "real list \<Rightarrow> real" where
  "computeEnergyVAD input =
     (let energy = sqrt (foldl (\<lambda>e x. e + x * x) 0 input / real (length input));
          min_energy = 1 / 10000;
          max_energy = 1 / 10
      in if energy < min_energy then 0
         else if energy > max_energy then 1
         else (energy - min_energy) / (max_energy - min_energy))"

definition VAD_WINDOW_SIZE :: nat where
  "VAD_WINDOW_SIZE = 512"

definition resample_chunk :: "int \<Rightarrow> real list \<Rightarrow> fault + real list" where
  \<comment> \<open>to 16 kHz: every third sample from 48 kHz; else, with
      \<open>ratio = sample_rate / 16000\<close>, the samples at \<open>i * ratio\<close> for \<open>i\<close> below
      \<open>size / ratio\<close>, both cut to integers. The cut of \<open>size / ratio\<close> to a \<^verbatim>\<open>size_t\<close> is
      undefined for a rate of zero and for a quotient of \<open>-1\<close> or below.\<close>
  "resample_chunk sample_rate audio_chunk =
     (if sample_rate \<noteq> 16000 then
        (if sample_rate = 48000 then
           Inr (map (\<lambda>q. audio_chunk ! (3 * q)) [0..<(length audio_chunk + 2) div 3])
         else if sample_rate = 0 then Inl BadCast
         else if real (length audio_chunk) * 16000 / real_of_int sample_rate \<le> - 1
         then Inl BadCast
         else
           (let new_size = nat \<lfloor>real (length audio_chunk) * 16000 / real_of_int sample_rate\<rfloor>
            in Inr (map (\<lambda>src_idx. audio_chunk ! src_idx)
                      (filter (\<lambda>src_idx. src_idx < length audio_chunk)
                         (map (\<lambda>i. nat \<lfloor>real i * real_of_int sample_rate / 16000\<rfloor>)
                            [0..<new_size])))))
      else Inr audio_chunk)"

definition computeSileroVAD :: "AudioRecorder \<Rightarrow> real list \<Rightarrow> fault + (real \<times> AudioRecorder)" where
  "computeSileroVAD r audio_chunk =
     (case vad_detector r of
        None \<Rightarrow> Inr (0, r)
      | Some d \<Rightarrow>
          bind_fault (resample_chunk (rec_sample_rate (rec_cfg r)) audio_chunk)
            (\<lambda>resampled_chunk.
               let buf = vad_buffer r @ resampled_chunk in
               if length buf \<ge> VAD_WINDOW_SIZE then
                 (let vad_input = drop (length buf - VAD_WINDOW_SIZE) buf;
                      kept = (if length buf > VAD_WINDOW_SIZE * 2
                              then drop (length buf - VAD_WINDOW_SIZE) buf else buf)
                  in bind_fault (detectVAD d vad_input)
                       (\<lambda>(prob, d'). Inr (prob, r\<lparr>vad_buffer := kept, vad_detector := Some d'\<rparr>)))
               else Inr (0, r\<lparr>vad_buffer := buf\<rparr>)))"

definition push_pre_speech :: "AudioRecorder \<Rightarrow> real list \<Rightarrow> AudioRecorder" where
  \<comment> \<open>the bounded pre-speech buffer: above ten buffers the oldest
      \<open>frames_per_buffer\<close> samples go, then the frame is appended\<close>
  "push_pre_speech r frame =
     (let fpb = frames_per_buffer (rec_cfg r);
          pre = pre_speech_buffer r;
          trimmed = (if int (length pre) > to_size_t (fpb * 10) then drop (nat fpb) pre else pre)
      in r\<lparr>pre_speech_buffer := trimmed @ frame\<rparr>)"

definition detect_speech :: "AudioRecorder \<Rightarrow> real list \<Rightarrow> fault + (bool \<times> AudioRecorder)" where
  \<comment> \<open>the choice of the detector and the comparison with \<open>trigger_threshold\<close>\<close>
  "detect_speech r frame =
     (if useEnergyVAD (rec_cfg r) then
        Inr (computeEnergyVAD frame > trigger_threshold (rec_cfg r), r)
      else if useSileroVAD (rec_cfg r) \<and> vad_detector r \<noteq> None then
        bind_fault (computeSileroVAD r frame)
          (\<lambda>(silero_prob, r'). Inr (silero_prob > trigger_threshold (rec_cfg r), r'))
      else Inr (computeEnergyVAD frame > trigger_threshold (rec_cfg r), r))"

definition on_speech :: "bool \<Rightarrow> real \<Rightarrow> AudioRecorder \<Rightarrow> AudioRecorder" where
  \<comment> \<open>\<^verbatim>\<open>if (is_speech) { ... }\<close>\<close>
  "on_speech is_speech now r =
     (if is_speech then
        (let r1 = r\<lparr>last_speech_time := now\<rparr> in
         if \<not> speech_detected r1
         then r1\<lparr>speech_detected := True,
                 audio_buffer := audio_buffer r1 @ pre_speech_buffer r1\<rparr>
         else r1)
      else r)"

definition accumulate :: "real list \<Rightarrow> real \<Rightarrow> AudioRecorder \<Rightarrow> AudioRecorder" where
  \<comment> \<open>\<^verbatim>\<open>if (speech_detected_.load()) { ... }\<close>\<close>
  "accumulate frame now r =
     (if speech_detected r then
        (let r1 = r\<lparr>audio_buffer := audio_buffer r @ frame\<rparr>;
             silence = now - last_speech_time r1;
             total_duration = now - recording_start_time r1
         in if silence > silence_duration (rec_cfg r1) then r1\<lparr>should_stop := True\<rparr>
            else if total_duration > max_record_time (rec_cfg r1) then r1\<lparr>should_stop := True\<rparr>
            else r1)
      else r)"

definition processAudioFrame :: "AudioRecorder \<Rightarrow> real list \<Rightarrow> real \<Rightarrow> fault + AudioRecorder" where
  \<comment> \<open>one callback: \<open>frame\<close> holds the \<open>frame_count * channels\<close> samples delivered,
      \<open>now\<close> is the reading of the clock; the observer \<^verbatim>\<open>vad_callback_\<close> only reads the
      frame\<close>
  "processAudioFrame r frame now =
     bind_fault (detect_speech (push_pre_speech r frame) frame)
       (\<lambda>(is_speech, r'). Inr (accumulate frame now (on_speech is_speech now r')))"

definition start_session :: "real \<Rightarrow> AudioRecorder \<Rightarrow> AudioRecorder" where
  \<comment> \<open>the reset at the head of \<^verbatim>\<open>recordAudio\<close>; \<open>now\<close> is the clock at that point\<close>
  "start_session now r =
     r\<lparr>audio_buffer := [], pre_speech_buffer := [], vad_buffer := [],
       speech_detected := False, should_stop := False,
       recording_start_time := now, last_speech_time := now,
       vad_detector := map_option reset (vad_detector r)\<rparr>"

fun callbacks :: "AudioRecorder \<Rightarrow> (real list \<times> real) list \<Rightarrow> fault + AudioRecorder" where
  \<comment> \<open>the callbacks of a stream, each with its frame and time; the stream ends with
      the callback after which \<open>should_stop\<close> is set\<close>
  "callbacks r [] = Inr r"
| "callbacks r ((frame, now) # rest) =
     (if should_stop r then Inr r
      else bind_fault (processAudioFrame r frame now) (\<lambda>r'. callbacks r' rest))"

definition new_recorder :: AudioRecorder where
  \<comment> \<open>the recorder as \<^verbatim>\<open>AudioRecorder()\<close> constructs it: the default configuration, no
      detector, both clocks at the epoch\<close>
  "new_recorder =
     \<lparr>rec_cfg = default_recorder_config, audio_buffer = [], pre_speech_buffer = [],
      vad_buffer = [], speech_detected = False, should_stop = False,
      last_speech_time = 0, recording_start_time = 0, vad_detector = None\<rparr>"






section \<open>Properties of the signal front end\<close>

subsection \<open>Preemphasis\<close>

lemma length_preemphasis_loop: "length (preemphasis_loop a n xs) = length xs"
  by (induction n arbitrary: xs) simp_all

lemma preemphasis_loop_nth:
  "n < length xs \<Longrightarrow> i < length xs \<Longrightarrow>
     preemphasis_loop a n xs ! i =
       (if 0 < i \<and> i \<le> n then xs ! i - a * xs ! (i - 1) else xs ! i)"
proof (induction n arbitrary: xs)
  case 0
  then show ?case by simp
next
  case (Suc n)
  let ?ys = "xs[Suc n := xs ! Suc n - a * xs ! n]"
  have IH: "preemphasis_loop a n ?ys ! i =
       (if 0 < i \<and> i \<le> n then ?ys ! i - a * ?ys ! (i - 1) else ?ys ! i)"
    using Suc.IH[of ?ys] Suc.prems by simp
  show ?case
  proof (cases "i = Suc n")
    case True
    then show ?thesis using IH Suc.prems by simp
  next
    case False
    then have "?ys ! i = xs ! i" by simp
    moreover have "0 < i \<Longrightarrow> i \<le> n \<Longrightarrow> ?ys ! (i - 1) = xs ! (i - 1)" by simp
    ultimately show ?thesis using IH False by auto
  qed
qed

lemma preemphasis_loop_eq:
  assumes "audio \<noteq> []"
  shows "preemphasis_loop a (length audio - 1) audio =
           map (\<lambda>i. if i = 0 then audio ! 0 else audio ! i - a * audio ! (i - 1))
             [0..<length audio]"
proof (rule nth_equalityI)
  show "length (preemphasis_loop a (length audio - 1) audio) =
        length (map (\<lambda>i. if i = 0 then audio ! 0 else audio ! i - a * audio ! (i - 1))
             [0..<length audio])"
    by (simp add: length_preemphasis_loop)
next
  fix i assume "i < length (preemphasis_loop a (length audio - 1) audio)"
  then have i: "i < length audio" by (simp add: length_preemphasis_loop)
  have n: "length audio - 1 < length audio" using assms by simp
  show "preemphasis_loop a (length audio - 1) audio ! i =
        map (\<lambda>i. if i = 0 then audio ! 0 else audio ! i - a * audio ! (i - 1))
             [0..<length audio] ! i"
    using preemphasis_loop_nth[OF n i, of a] i by auto
qed

lemma preemphasis_constant:
  assumes "0 < n"
  shows "map (\<lambda>i. if i = 0 then replicate n k ! 0
                   else replicate n k ! i - a * replicate n k ! (i - 1)) [0..<n]
         = k # replicate (n - 1) (k * (1 - a :: real))"
proof (rule nth_equalityI)
  show "length (map (\<lambda>i. if i = 0 then replicate n k ! 0
                   else replicate n k ! i - a * replicate n k ! (i - 1)) [0..<n])
        = length (k # replicate (n - 1) (k * (1 - a)))"
    using assms by simp
next
  fix i
  assume "i < length (map (\<lambda>i. if i = 0 then replicate n k ! 0
                   else replicate n k ! i - a * replicate n k ! (i - 1)) [0..<n])"
  then have i: "i < n" by simp
  show "map (\<lambda>i. if i = 0 then replicate n k ! 0
                   else replicate n k ! i - a * replicate n k ! (i - 1)) [0..<n] ! i
        = (k # replicate (n - 1) (k * (1 - a))) ! i"
    using i by (cases i) (simp_all add: algebra_simps)
qed

text \<open>
  Claim C7, as the code has it. The filter runs only for a factor above zero: a factor
  of zero or below returns the waveform as it is. For a factor \<open>a > 0\<close> and a
  non-empty waveform \<open>x\<close>, the result keeps sample 0 and has \<open>x[i] - a * x[i - 1]\<close>
  at every later index \<open>i\<close>, both read from the waveform before the filter: the loop
  goes from the highest index down, so the sample it reads has not been written yet.
  Hence for a factor \<open>a \<ge> 0\<close> a constant waveform of \<open>n \<ge> 1\<close> samples of value \<open>k\<close>
  comes out as \<open>k\<close> followed by \<open>n - 1\<close> samples \<open>k * (1 - a)\<close>.
\<close>

theorem preprocess_preemphasis:
  "(0 < preemphasis cfg \<and> audio \<noteq> [] \<longrightarrow>
      preprocess cfg audio =
        Inr (map (\<lambda>i. if i = 0 then audio ! 0
                       else audio ! i - preemphasis cfg * audio ! (i - 1))
               [0..<length audio]))
   \<and> (preemphasis cfg \<le> 0 \<longrightarrow> preprocess cfg audio = Inr audio)
   \<and> (0 \<le> preemphasis cfg \<and> 0 < n \<longrightarrow>
        preprocess cfg (replicate n k) =
          Inr (k # replicate (n - 1) (k * (1 - preemphasis cfg))))"
proof (intro conjI impI)
  assume "0 < preemphasis cfg \<and> audio \<noteq> []"
  then show "preprocess cfg audio =
        Inr (map (\<lambda>i. if i = 0 then audio ! 0
                       else audio ! i - preemphasis cfg * audio ! (i - 1))
               [0..<length audio])"
    using preemphasis_loop_eq[of audio "preemphasis cfg"] by (simp add: preprocess_def)
next
  assume "preemphasis cfg \<le> 0"
  then show "preprocess cfg audio = Inr audio" by (simp add: preprocess_def)
next
  assume h: "0 \<le> preemphasis cfg \<and> 0 < n"
  show "preprocess cfg (replicate n k) =
          Inr (k # replicate (n - 1) (k * (1 - preemphasis cfg)))"
  proof (cases "preemphasis cfg = 0")
    case True
    have "replicate n k = k # replicate (n - 1) k" using h by (cases n) simp_all
    then show ?thesis using True by (simp add: preprocess_def)
  next
    case False
    then have pos: "0 < preemphasis cfg" using h by simp
    have ne: "replicate n k \<noteq> []" using h by simp
    show ?thesis
      using pos ne preemphasis_loop_eq[OF ne, of "preemphasis cfg"]
            preemphasis_constant[of n k "preemphasis cfg"] h
      by (simp add: preprocess_def)
  qed
qed

theorem preprocess_preemphasis_witness:
  "preprocess default_ap_config [1, 2, 4] = Inr [1, 2 - 97 / 100 * 1, 4 - 97 / 100 * 2]
   \<and> preprocess (default_ap_config\<lparr>preemphasis := - 1\<rparr>) [1, 2, 4] = Inr [1, 2, 4]
   \<and> preprocess default_ap_config [5, 5, 5] = Inr [5, 5 * (1 - 97 / 100), 5 * (1 - 97 / 100)]"
proof -
  have a: "0 < preemphasis default_ap_config \<and> [1, 2, 4 :: real] \<noteq> []"
    by (simp add: default_ap_config_def)
  have b: "preemphasis (default_ap_config\<lparr>preemphasis := - 1\<rparr>) \<le> 0" by simp
  have c: "0 \<le> preemphasis default_ap_config \<and> (0::nat) < 3"
    by (simp add: default_ap_config_def)
  have p: "preemphasis default_ap_config = 97 / 100" by (simp add: default_ap_config_def)
  have r: "replicate 3 (5::real) = [5, 5, 5]" by (simp add: numeral_3_eq_3)
  from preprocess_preemphasis[of default_ap_config "[1, 2, 4]" 3 5] a c
  have 1: "preprocess default_ap_config [1, 2, 4] =
             Inr (map (\<lambda>i. if i = 0 then [1, 2, 4] ! 0
                            else [1, 2, 4] ! i - preemphasis default_ap_config * [1, 2, 4] ! (i - 1))
                    [0..<length [1, 2, 4 :: real]])"
    and 3: "preprocess default_ap_config (replicate 3 5) =
             Inr (5 # replicate (3 - 1) (5 * (1 - preemphasis default_ap_config)))"
    by blast+
  from preprocess_preemphasis[of "default_ap_config\<lparr>preemphasis := - 1\<rparr>" "[1, 2, 4]" 3 5] b
  have 2: "preprocess (default_ap_config\<lparr>preemphasis := - 1\<rparr>) [1, 2, 4] = Inr [1, 2, 4]"
    by blast
  have u: "[0..<length [1, 2, 4 :: real]] = [0, 1, 2]" by (simp add: upt_rec)
  show ?thesis
    using 1 2 3 by (simp add: p r u numeral_2_eq_2)
qed

text \<open>
  The claim as it is worded, for every factor, fails below zero: with the factor
  \<open>-1\<close> the constant waveform 1, 1 comes back unchanged, and \<open>1 * (1 - (-1))\<close> is 2.
\<close>

theorem preprocess_negative_factor_counterexample:
  "preprocess (default_ap_config\<lparr>preemphasis := - 1\<rparr>) [1, 1] = Inr [1, 1]
   \<and> [1, 1 :: real] ! 1 \<noteq> 1 * (1 - (- 1))"
  by (simp add: preprocess_def)

subsection \<open>Framing of a waveform shorter than one frame\<close>

lemma num_frames_default_short:
  assumes "n < 400"
  shows "\<exists>k. num_frames_of default_ap_config n = Inr k \<and> k < 0"
proof -
  let ?c = "115292150460684695 :: int"
  have "(int n - 400) mod 18446744073709551616 =
        (int n - 400 + 18446744073709551616) mod 18446744073709551616"
    by (simp only: mod_add_self2)
  also have "\<dots> = int n - 400 + 18446744073709551616"
    using assms by (intro mod_pos_pos_trivial) auto
  finally have m: "(int n - 400) mod 18446744073709551616 = 18446744073709551216 + int n"
    by simp
  have sz: "to_size_t (int n - to_size_t 400) = 18446744073709551216 + int n"
    using m by (simp add: to_size_t_def)
  have split: "18446744073709551216 + int n = (16 + int n) + ?c * 160" by simp
  have q: "(18446744073709551216 + int n) div 160 = ?c + (16 + int n) div 160"
    by (subst split, subst div_mult_self1) simp_all
  have d: "(16 + int n) div 160 = 0 \<or> (16 + int n) div 160 = 1 \<or> (16 + int n) div 160 = 2"
    using assms by linarith
  have sh: "to_size_t 160 = 160" by (simp add: to_size_t_def)
  have neg: "to_int32 (?c + (16 + int n) div 160) < -1"
    using d by (auto simp: to_int32_def)
  have nf: "num_frames_of default_ap_config n =
              Inr (to_int32 (?c + (16 + int n) div 160) + 1)"
    unfolding num_frames_of_def using neg
    by (simp add: default_ap_config_def sh sz q Let_def)
  show ?thesis using nf neg by simp
qed

lemma frameSignal_default_short:
  "length signal < 400 \<Longrightarrow> frameSignal default_ap_config signal = Inl LengthError"
  using num_frames_default_short[of "length signal"]
  by (auto simp: frameSignal_def bind_fault_def)

text \<open>
  Claim C1, at the code. With the configuration the source constructs (frames of 400
  samples, a shift of 160, preemphasis 0.97), in a processor whose other members are
  arbitrary and for any transform, a waveform of 1 to 399 samples makes
  \<open>extractFeatures\<close> leave with \<^verbatim>\<open>std::length_error\<close>: the count of frames is computed
  in \<^verbatim>\<open>size_t\<close>, wraps, is cut to a negative \<^verbatim>\<open>int\<close>, and \<^verbatim>\<open>reserve\<close> refuses
  it. On the empty waveform the preemphasis loop already indexes outside the vector.
  No waveform shorter than one frame gives the empty matrix.
\<close>

theorem extractFeatures_short_waveform_fails:
  "(audio \<noteq> [] \<and> length audio < 400 \<longrightarrow>
      extractFeatures fft (ap\<lparr>config := default_ap_config\<rparr>) audio = Inl LengthError)
   \<and> extractFeatures fft (ap\<lparr>config := default_ap_config\<rparr>) [] = Inl OutOfRange"
proof (intro conjI impI)
  assume h: "audio \<noteq> [] \<and> length audio < 400"
  have "\<exists>y. preprocess default_ap_config audio = Inr y \<and> length y = length audio"
    using h by (simp add: preprocess_def default_ap_config_def length_preemphasis_loop)
  then obtain y where y: "preprocess default_ap_config audio = Inr y" "length y = length audio"
    by blast
  have "frameSignal default_ap_config y = Inl LengthError"
    using frameSignal_default_short[of y] y h by simp
  then show "extractFeatures fft (ap\<lparr>config := default_ap_config\<rparr>) audio = Inl LengthError"
    using y by (simp add: extractFeatures_def computeFbank_def bind_fault_def)
next
  show "extractFeatures fft (ap\<lparr>config := default_ap_config\<rparr>) [] = Inl OutOfRange"
    by (simp add: extractFeatures_def preprocess_def bind_fault_def default_ap_config_def)
qed

theorem extractFeatures_short_waveform_fails_witness:
  "[1 / 2 :: real] \<noteq> [] \<and> length [1 / 2 :: real] < 400
   \<and> extractFeatures (\<lambda>w. [])
         \<lparr>config = default_ap_config, cmvn_loaded = False, cmvn_mean = [], cmvn_var = [],
          mel_filterbank = [], window = []\<rparr> [1 / 2] = Inl LengthError"
  using extractFeatures_short_waveform_fails[of "[1 / 2]" "\<lambda>w. []"
          "\<lparr>config = default_ap_config, cmvn_loaded = False, cmvn_mean = [], cmvn_var = [],
            mel_filterbank = [], window = []\<rparr>"]
  by simp

subsection \<open>Mean and variance normalisation\<close>

lemma collect_faults_map_cong:
  "(\<And>x. x \<in> set xs \<Longrightarrow> g x = Inr (f x)) \<Longrightarrow> collect_faults (map g xs) = Inr (map f xs)"
  by (induction xs) (simp_all add: bind_fault_def)

text \<open>
  Claim C4, as the code has it. When statistics are loaded (with a variance for every
  mean), each frame keeps its length; dimension \<open>d\<close> becomes
  \<open>(x[d] - mean[d]) / sqrt (var[d])\<close> for every \<open>d\<close> below the number of loaded means,
  and every dimension from that number on is left as it is. When no statistics are
  loaded the matrix is returned unchanged.
\<close>

theorem applyCMVN_normalizes:
  "(cmvn_loaded ap \<and> length (cmvn_mean ap) \<le> length (cmvn_var ap) \<longrightarrow>
      applyCMVN ap features =
        Inr (map (\<lambda>frame.
                    map (\<lambda>d. if d < length (cmvn_mean ap)
                              then (frame ! d - cmvn_mean ap ! d) / sqrt (cmvn_var ap ! d)
                              else frame ! d)
                      [0..<length frame])
               features))
   \<and> (\<not> cmvn_loaded ap \<longrightarrow> applyCMVN ap features = Inr features)"
proof (intro conjI impI)
  assume h: "cmvn_loaded ap \<and> length (cmvn_mean ap) \<le> length (cmvn_var ap)"
  have fr: "\<And>frame. cmvn_frame (cmvn_mean ap) (cmvn_var ap) frame =
        Inr (map (\<lambda>d. if d < length (cmvn_mean ap)
                       then (frame ! d - cmvn_mean ap ! d) / sqrt (cmvn_var ap ! d)
                       else frame ! d)
               [0..<length frame])"
    using h by (auto simp: cmvn_frame_def min_def)
  show "applyCMVN ap features =
        Inr (map (\<lambda>frame.
                    map (\<lambda>d. if d < length (cmvn_mean ap)
                              then (frame ! d - cmvn_mean ap ! d) / sqrt (cmvn_var ap ! d)
                              else frame ! d)
                      [0..<length frame])
               features)"
    using h collect_faults_map_cong[of features "cmvn_frame (cmvn_mean ap) (cmvn_var ap)", OF fr]
    by (simp add: applyCMVN_def)
next
  assume "\<not> cmvn_loaded ap"
  then show "applyCMVN ap features = Inr features" by (simp add: applyCMVN_def)
qed

theorem applyCMVN_normalizes_witness:
  "applyCMVN \<lparr>config = default_ap_config, cmvn_loaded = True, cmvn_mean = [1, 2],
              cmvn_var = [4, 1], mel_filterbank = [], window = []\<rparr> [[3, 5, 9], [7, 2, 4]]
     = Inr [[1, 3, 9], [3, 0, 4]]
   \<and> applyCMVN \<lparr>config = default_ap_config, cmvn_loaded = False, cmvn_mean = [], cmvn_var = [],
                mel_filterbank = [], window = []\<rparr> [[3, 5, 9], [7, 2, 4]]
     = Inr [[3, 5, 9], [7, 2, 4]]"
proof -
  let ?ap = "\<lparr>config = default_ap_config, cmvn_loaded = True, cmvn_mean = [1, 2],
              cmvn_var = [4, 1], mel_filterbank = [], window = []\<rparr>"
  let ?ap' = "\<lparr>config = default_ap_config, cmvn_loaded = False, cmvn_mean = [], cmvn_var = [],
                mel_filterbank = [], window = []\<rparr>"
  have h: "cmvn_loaded ?ap \<and> length (cmvn_mean ?ap) \<le> length (cmvn_var ?ap)" by simp
  have h': "\<not> cmvn_loaded ?ap'" by simp
  have u: "[0..<3] = [0, Suc 0, 2]" by (simp add: upt_rec)
  from applyCMVN_normalizes[of ?ap "[[3, 5, 9], [7, 2, 4]]"] h
  have 1: "applyCMVN ?ap [[3, 5, 9], [7, 2, 4]] =
        Inr (map (\<lambda>frame.
                    map (\<lambda>d. if d < length (cmvn_mean ?ap)
                              then (frame ! d - cmvn_mean ?ap ! d) / sqrt (cmvn_var ?ap ! d)
                              else frame ! d)
                      [0..<length frame])
               [[3, 5, 9], [7, 2, 4]])"
    by blast
  from applyCMVN_normalizes[of ?ap' "[[3, 5, 9], [7, 2, 4]]"] h'
  have 2: "applyCMVN ?ap' [[3, 5, 9], [7, 2, 4]] = Inr [[3, 5, 9], [7, 2, 4]]" by blast
  show ?thesis using 1 2 by (simp add: u)
qed

text \<open>
  The claim as it is worded, for every dimension of every frame, fails on a frame wider
  than the statistics. With one mean 1 and one variance 4 the frame 3, 5 becomes 1, 5:
  dimension 1 has no statistics and is not normalised. The same holds for the
  statistics \<open>loadCMVN\<close> fills in, which have \<open>n_mels\<close> entries while a frame has
  seven times as many dimensions after the low frame rate step.
\<close>

theorem applyCMVN_wide_frame_counterexample:
  "applyCMVN \<lparr>config = default_ap_config, cmvn_loaded = True, cmvn_mean = [1],
              cmvn_var = [4], mel_filterbank = [], window = []\<rparr> [[3, 5]] = Inr [[1, 5]]
   \<and> \<not> normalized_every_dimension [1] [4] [3, 5] [1, 5]
   \<and> loadCMVN \<lparr>config = default_ap_config\<lparr>n_mels := 1\<rparr>, cmvn_loaded = False,
                cmvn_mean = [], cmvn_var = [], mel_filterbank = [], window = []\<rparr>
       = Inr \<lparr>config = default_ap_config\<lparr>n_mels := 1\<rparr>, cmvn_loaded = True,
              cmvn_mean = [0], cmvn_var = [1], mel_filterbank = [], window = []\<rparr>
   \<and> applyCMVN \<lparr>config = default_ap_config\<lparr>n_mels := 1\<rparr>, cmvn_loaded = True,
              cmvn_mean = [0], cmvn_var = [1], mel_filterbank = [], window = []\<rparr>
        [[3, 5, 3, 5, 3, 5, 3]] = Inr [[3, 5, 3, 5, 3, 5, 3]]
   \<and> \<not> normalized_every_dimension [0] [1] [3, 5, 3, 5, 3, 5, 3] [3, 5, 3, 5, 3, 5, 3]"
  by (simp add: applyCMVN_def cmvn_frame_def loadCMVN_def bind_fault_def
        normalized_every_dimension_def upt_rec)

subsection \<open>Triangular mel filters\<close>

lemma fill_loop_spec:
  "guard \<or> js = [] \<Longrightarrow> \<forall>j\<in>set js. 0 \<le> j \<and> nat j < length row \<Longrightarrow>
     \<exists>row'. fill_loop guard f js row = Inr row' \<and> length row' = length row \<and>
       (\<forall>i<length row. row' ! i = (if int i \<in> set js then f (int i) else row ! i))"
proof (induction js arbitrary: row)
  case Nil
  then show ?case by simp
next
  case (Cons j js)
  then have g: guard by simp
  have j: "0 \<le> j" "nat j < length row" using Cons.prems by simp_all
  let ?row1 = "row[nat j := f j]"
  have "\<forall>j\<in>set js. 0 \<le> j \<and> nat j < length ?row1" using Cons.prems by simp
  with Cons.IH[of ?row1] g obtain row' where r:
    "fill_loop guard f js ?row1 = Inr row'" "length row' = length ?row1"
    "\<forall>i<length ?row1. row' ! i = (if int i \<in> set js then f (int i) else ?row1 ! i)"
    by blast
  have "\<forall>i<length row. row' ! i = (if int i \<in> set (j # js) then f (int i) else row ! i)"
  proof (intro allI impI)
    fix i assume i: "i < length row"
    have eq: "i = nat j \<longleftrightarrow> int i = j" using j by auto
    show "row' ! i = (if int i \<in> set (j # js) then f (int i) else row ! i)"
      using r(3) i eq by (auto simp: nth_list_update)
  qed
  then show ?case using r g j by simp
qed

lemma mel_filter_row:
  assumes "0 \<le> start" "start \<le> center" "center \<le> end_bin" "end_bin < int fft_size"
  shows "mel_filter fft_size start center end_bin =
    Inr (map (\<lambda>i. if center \<le> int i \<and> int i < end_bin
                   then real_of_int (end_bin - int i) / real_of_int (end_bin - center)
                   else if start \<le> int i \<and> int i < center
                   then real_of_int (int i - start) / real_of_int (center - start)
                   else 0)
           [0..<fft_size])"
proof -
  let ?f = "\<lambda>j. real_of_int (j - start) / real_of_int (center - start)"
  let ?g = "\<lambda>j. real_of_int (end_bin - j) / real_of_int (end_bin - center)"
  have g1: "center \<noteq> start \<or> [start..center - 1] = []" using assms by auto
  have b1: "\<forall>j\<in>set [start..center - 1]. 0 \<le> j \<and> nat j < length (replicate fft_size (0::real))"
    using assms by auto
  from fill_loop_spec[OF g1 b1, of ?f] obtain row1 where r1:
    "fill_loop (center \<noteq> start) ?f [start..center - 1] (replicate fft_size 0) = Inr row1"
    "length row1 = fft_size"
    "\<forall>i<fft_size. row1 ! i = (if int i \<in> set [start..center - 1] then ?f (int i) else 0)"
    by auto
  have g2: "end_bin \<noteq> center \<or> [center..end_bin - 1] = []" using assms by auto
  have b2: "\<forall>j\<in>set [center..end_bin - 1]. 0 \<le> j \<and> nat j < length row1"
    using assms r1(2) by auto
  from fill_loop_spec[OF g2 b2, of ?g] obtain row2 where r2:
    "fill_loop (end_bin \<noteq> center) ?g [center..end_bin - 1] row1 = Inr row2"
    "length row2 = fft_size"
    "\<forall>i<fft_size. row2 ! i = (if int i \<in> set [center..end_bin - 1] then ?g (int i) else row1 ! i)"
    using r1(2) by auto
  have "row2 = map (\<lambda>i. if center \<le> int i \<and> int i < end_bin then ?g (int i)
                   else if start \<le> int i \<and> int i < center then ?f (int i) else 0)
           [0..<fft_size]"
  proof (rule nth_equalityI)
    show "length row2 = length (map (\<lambda>i. if center \<le> int i \<and> int i < end_bin then ?g (int i)
                   else if start \<le> int i \<and> int i < center then ?f (int i) else 0)
           [0..<fft_size])"
      using r2(2) by simp
  next
    fix i assume "i < length row2"
    then have i: "i < fft_size" using r2(2) by simp
    show "row2 ! i = map (\<lambda>i. if center \<le> int i \<and> int i < end_bin then ?g (int i)
                   else if start \<le> int i \<and> int i < center then ?f (int i) else 0)
           [0..<fft_size] ! i"
      using r1(3) r2(3) i by auto
  qed
  then show ?thesis using r1(1) r2(1) by (simp add: mel_filter_def bind_fault_def)
qed

lemma hz_to_mel_nonneg: "0 \<le> hz \<Longrightarrow> 0 \<le> hz_to_mel hz"
  by (simp add: hz_to_mel_def)

lemma mel_to_hz_mono: "a \<le> b \<Longrightarrow> mel_to_hz a \<le> mel_to_hz b"
  by (simp add: mel_to_hz_def)

lemma mel_to_hz_nonneg: "0 \<le> m \<Longrightarrow> 0 \<le> mel_to_hz m"
  using mel_to_hz_mono[of 0 m] by (simp add: mel_to_hz_def)

lemma bin_points_nth:
  assumes "i < nat (n_mels cfg + 2)"
  shows "bin_points cfg ! i =
     min \<lfloor>real_of_int (n_fft cfg + 1)
           * mel_to_hz (real i * hz_to_mel (real_of_int (ap_sample_rate cfg) / 2)
                          / real_of_int (n_mels cfg + 1))
           / real_of_int (ap_sample_rate cfg)\<rfloor>
         (c_div (n_fft cfg) 2)"
  using assms by (simp add: bin_points_def hz_points_def mel_points_def Let_def)

lemma c_div_nonneg: "0 \<le> a \<Longrightarrow> c_div a 2 = a div 2"
  by (cases "a = 0") (simp_all add: c_div_def)

lemma bin_points_sorted:
  assumes sr: "0 < ap_sample_rate cfg" and nf: "0 \<le> n_fft cfg" and nm: "0 \<le> n_mels cfg"
    and ij: "i \<le> j" and j: "j < nat (n_mels cfg + 2)"
  shows "0 \<le> bin_points cfg ! i" and "bin_points cfg ! i \<le> bin_points cfg ! j"
    and "bin_points cfg ! j \<le> n_fft cfg div 2"
proof -
  let ?mm = "hz_to_mel (real_of_int (ap_sample_rate cfg) / 2)"
  let ?m = "\<lambda>k. real k * ?mm / real_of_int (n_mels cfg + 1)"
  let ?v = "\<lambda>k. real_of_int (n_fft cfg + 1) * mel_to_hz (?m k) / real_of_int (ap_sample_rate cfg)"
  have i: "i < nat (n_mels cfg + 2)" using ij j by simp
  have mm: "0 \<le> ?mm" using sr by (intro hz_to_mel_nonneg) simp
  have m0: "\<And>k. 0 \<le> ?m k" using mm nm by simp
  have mmono: "?m i \<le> ?m j" using ij mm nm
    by (intro divide_right_mono mult_right_mono) simp_all
  have v0: "\<And>k. 0 \<le> ?v k" using mel_to_hz_nonneg[OF m0] sr nf by simp
  have vmono: "?v i \<le> ?v j"
    using mel_to_hz_mono[OF mmono] sr nf
    by (intro divide_right_mono mult_left_mono) simp_all
  have cd: "c_div (n_fft cfg) 2 = n_fft cfg div 2" using nf by (rule c_div_nonneg)
  have half: "0 \<le> n_fft cfg div 2" using nf by simp
  show "0 \<le> bin_points cfg ! i"
    using bin_points_nth[OF i] v0[of i] half by (simp add: cd)
  show "bin_points cfg ! i \<le> bin_points cfg ! j"
    using bin_points_nth[OF i] bin_points_nth[OF j] floor_mono[OF vmono] by (simp add: cd)
  show "bin_points cfg ! j \<le> n_fft cfg div 2"
    using bin_points_nth[OF j] by (simp add: cd)
qed

lemma bins_of_valid_config:
  assumes "0 < ap_sample_rate cfg" "0 \<le> n_fft cfg" "0 \<le> n_mels cfg" "i < nat (n_mels cfg)"
  shows "0 \<le> bin_points cfg ! i" "bin_points cfg ! i \<le> bin_points cfg ! (i + 1)"
    "bin_points cfg ! (i + 1) \<le> bin_points cfg ! (i + 2)"
    "bin_points cfg ! (i + 2) < int (nat (c_div (n_fft cfg) 2 + 1))"
proof -
  have j2: "i + 2 < nat (n_mels cfg + 2)" and j1: "i + 1 < nat (n_mels cfg + 2)"
    using assms(3,4) by simp_all
  show "0 \<le> bin_points cfg ! i"
    using bin_points_sorted(1)[OF assms(1-3) _ j1, of i] by simp
  show "bin_points cfg ! i \<le> bin_points cfg ! (i + 1)"
    using bin_points_sorted(2)[OF assms(1-3) _ j1, of i] by simp
  show "bin_points cfg ! (i + 1) \<le> bin_points cfg ! (i + 2)"
    using bin_points_sorted(2)[OF assms(1-3) _ j2, of "i + 1"] by simp
  have "bin_points cfg ! (i + 2) \<le> n_fft cfg div 2"
    using bin_points_sorted(3)[OF assms(1-3) _ j2, of "i + 2"] by simp
  then show "bin_points cfg ! (i + 2) < int (nat (c_div (n_fft cfg) 2 + 1))"
    using assms(2) by (simp add: c_div_nonneg)
qed

lemma initializeMelFilterbank_rows:
  assumes "0 < ap_sample_rate cfg" "0 \<le> n_fft cfg" "0 \<le> n_mels cfg"
  shows "initializeMelFilterbank cfg =
     Inr (map (\<lambda>i. triangle (nat (c_div (n_fft cfg) 2 + 1)) (bin_points cfg ! i)
                      (bin_points cfg ! (i + 1)) (bin_points cfg ! (i + 2)))
            [0..<nat (n_mels cfg)])"
proof -
  have half: "0 \<le> c_div (n_fft cfg) 2 + 1" using assms(2) by (simp add: c_div_nonneg)
  have "collect_faults
          (map (\<lambda>i. mel_filter (nat (c_div (n_fft cfg) 2 + 1)) (bin_points cfg ! i)
                       (bin_points cfg ! (i + 1)) (bin_points cfg ! (i + 2)))
             [0..<nat (n_mels cfg)]) =
        Inr (map (\<lambda>i. triangle (nat (c_div (n_fft cfg) 2 + 1)) (bin_points cfg ! i)
                      (bin_points cfg ! (i + 1)) (bin_points cfg ! (i + 2)))
            [0..<nat (n_mels cfg)])"
  proof (rule collect_faults_map_cong)
    fix i assume "i \<in> set [0..<nat (n_mels cfg)]"
    then have i: "i < nat (n_mels cfg)" by simp
    show "mel_filter (nat (c_div (n_fft cfg) 2 + 1)) (bin_points cfg ! i)
            (bin_points cfg ! (i + 1)) (bin_points cfg ! (i + 2)) =
          Inr (triangle (nat (c_div (n_fft cfg) 2 + 1)) (bin_points cfg ! i)
                 (bin_points cfg ! (i + 1)) (bin_points cfg ! (i + 2)))"
      unfolding triangle_def
      by (rule mel_filter_row) (rule bins_of_valid_config[OF assms i])+
  qed
  then show ?thesis
    using assms(3) half by (simp add: initializeMelFilterbank_def triangular_filters_def)
qed

text \<open>
  Claim C5, as the code has it. For a configuration with a positive sample rate and
  non-negative \<open>n_fft\<close> and \<open>n_mels\<close>, the filterbank is built, has \<open>n_mels\<close> filters of
  \<open>n_fft / 2 + 1\<close> weights, and for every filter index \<open>i\<close> with \<open>s = bin_i\<close>,
  \<open>c = bin_{i+1}\<close>, \<open>e = bin_{i+2}\<close>: the bins are ordered \<open>0 \<le> s \<le> c \<le> e \<le> n_fft / 2\<close>;
  the weight is zero at every bin below \<open>s\<close> and at every bin from \<open>e\<close> on; it is
  \<open>(j - s) / (c - s)\<close> at the bins \<open>s \<le> j < c\<close> and \<open>(e - j) / (e - c)\<close> at the bins
  \<open>c \<le> j < e\<close>; at \<open>c\<close> it is 1 when \<open>c < e\<close>, and 0 when \<open>c = e\<close> (the second
  loop is empty then, and the first stops before \<open>c\<close>).
\<close>

theorem initializeMelFilterbank_triangles:
  assumes "0 < ap_sample_rate cfg" and "0 \<le> n_fft cfg" and "0 \<le> n_mels cfg"
    and "i < nat (n_mels cfg)"
  shows "\<exists>fb. initializeMelFilterbank cfg = Inr fb \<and> length fb = nat (n_mels cfg)
     \<and> length (fb ! i) = nat (n_fft cfg div 2 + 1)
     \<and> 0 \<le> bin_points cfg ! i \<and> bin_points cfg ! i \<le> bin_points cfg ! (i + 1)
     \<and> bin_points cfg ! (i + 1) \<le> bin_points cfg ! (i + 2)
     \<and> bin_points cfg ! (i + 2) \<le> n_fft cfg div 2
     \<and> (\<forall>j<length (fb ! i).
           (int j < bin_points cfg ! i \<or> bin_points cfg ! (i + 2) \<le> int j \<longrightarrow> fb ! i ! j = 0)
         \<and> (bin_points cfg ! i \<le> int j \<and> int j < bin_points cfg ! (i + 1) \<longrightarrow>
              fb ! i ! j = real_of_int (int j - bin_points cfg ! i)
                           / real_of_int (bin_points cfg ! (i + 1) - bin_points cfg ! i))
         \<and> (bin_points cfg ! (i + 1) \<le> int j \<and> int j < bin_points cfg ! (i + 2) \<longrightarrow>
              fb ! i ! j = real_of_int (bin_points cfg ! (i + 2) - int j)
                           / real_of_int (bin_points cfg ! (i + 2) - bin_points cfg ! (i + 1))))
     \<and> (bin_points cfg ! (i + 1) < bin_points cfg ! (i + 2) \<longrightarrow>
           fb ! i ! nat (bin_points cfg ! (i + 1)) = 1)
     \<and> (bin_points cfg ! (i + 1) = bin_points cfg ! (i + 2) \<longrightarrow>
           fb ! i ! nat (bin_points cfg ! (i + 1)) = 0)"
proof -
  define s where "s = bin_points cfg ! i"
  define c where "c = bin_points cfg ! (i + 1)"
  define e where "e = bin_points cfg ! (i + 2)"
  define N where "N = nat (c_div (n_fft cfg) 2 + 1)"
  define fb where "fb = map (\<lambda>i. triangle N (bin_points cfg ! i)
                      (bin_points cfg ! (i + 1)) (bin_points cfg ! (i + 2)))
            [0..<nat (n_mels cfg)]"
  note b = bins_of_valid_config[OF assms, folded s_def c_def e_def N_def]
  have init: "initializeMelFilterbank cfg = Inr fb"
    unfolding fb_def N_def using assms(1-3) by (rule initializeMelFilterbank_rows)
  have lfb: "length fb = nat (n_mels cfg)" by (simp add: fb_def)
  have row: "fb ! i = triangle N s c e"
    unfolding fb_def s_def c_def e_def using assms(4) by simp
  have Neq: "N = nat (n_fft cfg div 2 + 1)"
    unfolding N_def using assms(2) by (simp add: c_div_nonneg)
  have len: "length (fb ! i) = N" unfolding row by (simp add: triangle_def)
  have eN: "e \<le> n_fft cfg div 2" using b(4) assms(2) unfolding Neq by simp
  have c0: "0 \<le> c" using b(1,2) by simp
  have cN: "nat c < N" using b(3,4) c0 by simp
  have w: "\<And>j. j < N \<Longrightarrow> fb ! i ! j =
      (if c \<le> int j \<and> int j < e
       then real_of_int (e - int j) / real_of_int (e - c)
       else if s \<le> int j \<and> int j < c
       then real_of_int (int j - s) / real_of_int (c - s)
       else 0)"
    unfolding row by (simp add: triangle_def)
  have ramps: "\<forall>j<length (fb ! i).
           (int j < s \<or> e \<le> int j \<longrightarrow> fb ! i ! j = 0)
         \<and> (s \<le> int j \<and> int j < c \<longrightarrow>
              fb ! i ! j = real_of_int (int j - s) / real_of_int (c - s))
         \<and> (c \<le> int j \<and> int j < e \<longrightarrow>
              fb ! i ! j = real_of_int (e - int j) / real_of_int (e - c))"
    unfolding len using w b(2,3) by auto
  have peak: "c < e \<longrightarrow> fb ! i ! nat c = 1"
    using w[OF cN] c0 by simp
  have flat: "c = e \<longrightarrow> fb ! i ! nat c = 0"
  proof
    assume "c = e"
    then have "\<not> c < e" by simp
    then show "fb ! i ! nat c = 0" using w[OF cN] c0 by simp
  qed
  have "\<exists>fb. initializeMelFilterbank cfg = Inr fb \<and> length fb = nat (n_mels cfg)
     \<and> length (fb ! i) = nat (n_fft cfg div 2 + 1)
     \<and> 0 \<le> s \<and> s \<le> c \<and> c \<le> e \<and> e \<le> n_fft cfg div 2
     \<and> (\<forall>j<length (fb ! i).
           (int j < s \<or> e \<le> int j \<longrightarrow> fb ! i ! j = 0)
         \<and> (s \<le> int j \<and> int j < c \<longrightarrow>
              fb ! i ! j = real_of_int (int j - s) / real_of_int (c - s))
         \<and> (c \<le> int j \<and> int j < e \<longrightarrow>
              fb ! i ! j = real_of_int (e - int j) / real_of_int (e - c)))
     \<and> (c < e \<longrightarrow> fb ! i ! nat c = 1)
     \<and> (c = e \<longrightarrow> fb ! i ! nat c = 0)"
    using init lfb len Neq b(1,2,3) eN ramps peak flat by blast
  then show ?thesis unfolding s_def c_def e_def .
qed

subsection \<open>The bins of the default configuration\<close>

lemma powr_frac_lower:
  assumes "0 < L" "0 < b" "L ^ n \<le> b ^ k" "0 < n"
  shows "L \<le> b powr (real k / real n)"
proof -
  have "L = (L powr real n) powr (1 / real n)" using assms by (simp add: powr_powr)
  also have "\<dots> = (L ^ n) powr (1 / real n)" using assms by (simp add: powr_realpow)
  also have "\<dots> \<le> (b ^ k) powr (1 / real n)" using assms by (intro powr_mono2) simp_all
  also have "\<dots> = (b powr real k) powr (1 / real n)" using assms by (simp add: powr_realpow)
  also have "\<dots> = b powr (real k / real n)" by (simp add: powr_powr)
  finally show ?thesis .
qed

lemma powr_frac_upper:
  assumes "0 < U" "0 < b" "b ^ k < U ^ n" "0 < n"
  shows "b powr (real k / real n) < U"
proof -
  have "b powr (real k / real n) = (b powr real k) powr (1 / real n)" by (simp add: powr_powr)
  also have "\<dots> = (b ^ k) powr (1 / real n)" using assms by (simp add: powr_realpow)
  also have "\<dots> < (U ^ n) powr (1 / real n)" using assms by (intro powr_less_mono2) simp_all
  also have "\<dots> = (U powr real n) powr (1 / real n)" using assms by (simp add: powr_realpow)
  also have "\<dots> = U" using assms by (simp add: powr_powr)
  finally show ?thesis .
qed

lemma mel_to_hz_scaled:
  assumes "0 \<le> hz"
  shows "mel_to_hz (t * hz_to_mel hz / n) = 700 * ((1 + hz / 700) powr (t / n) - 1)"
proof -
  have b: "0 < 1 + hz / 700" using assms by (simp add: add_pos_nonneg)
  have "10 powr (t * hz_to_mel hz / n / 2595) = 10 powr (log 10 (1 + hz / 700) * (t / n))"
    by (simp add: hz_to_mel_def mult.commute)
  also have "\<dots> = (10 powr log 10 (1 + hz / 700)) powr (t / n)" by (simp add: powr_powr)
  also have "\<dots> = (1 + hz / 700) powr (t / n)" using b by simp
  finally show ?thesis by (simp add: mel_to_hz_def)
qed

lemma default_bin:
  assumes k: "k < 82" and m: "m \<le> 256"
    and lo: "((3591 + 160 * real m) / 3591) ^ 81 \<le> (87 / 7) ^ k"
    and hi: "(87 / 7 :: real) ^ k < ((3591 + 160 * (real m + 1)) / 3591) ^ 81"
  shows "bin_points default_ap_config ! k = int m"
proof -
  let ?X = "(87 / 7 :: real) powr (real k / real (81::nat))"
  have L: "(3591 + 160 * real m) / 3591 \<le> ?X"
    by (rule powr_frac_lower[OF _ _ lo]) (simp_all add: add_pos_nonneg)
  have U: "?X < (3591 + 160 * (real m + 1)) / 3591"
    by (rule powr_frac_upper[OF _ _ hi]) (simp_all add: add_pos_nonneg)
  have hz: "mel_to_hz (real k * hz_to_mel 8000 / 81) = 700 * (?X - 1)"
    using mel_to_hz_scaled[of 8000 "real k" 81] by simp
  have f: "\<lfloor>513 * (700 * (?X - 1)) / 16000\<rfloor> = int m"
  proof (rule floor_unique)
    show "of_int (int m) \<le> 513 * (700 * (?X - 1)) / 16000" using L by (simp add: field_simps)
    show "513 * (700 * (?X - 1)) / 16000 < of_int (int m) + 1" using U by (simp add: field_simps)
  qed
  have kk: "k < nat (n_mels default_ap_config + 2)" using k by (simp add: default_ap_config_def)
  have cd: "c_div 512 2 = 256" by (simp add: c_div_def)
  show ?thesis
    using bin_points_nth[OF kk] f m
    by (simp add: default_ap_config_def hz cd)
qed

lemma default_bin_1: "bin_points default_ap_config ! 1 = 0"
  using default_bin[of 1 0] by (simp add: power_divide divide_simps)

lemma default_bin_2: "bin_points default_ap_config ! 2 = 1"
  using default_bin[of 2 1] by (simp add: power_divide divide_simps)

lemma default_bin_3: "bin_points default_ap_config ! 3 = 2"
  using default_bin[of 3 2] by (simp add: power_divide divide_simps)

lemma default_bin_4: "bin_points default_ap_config ! 4 = 2"
  using default_bin[of 4 2] by (simp add: power_divide divide_simps)

lemma mel_filter_flat: "mel_filter 257 1 2 2 = Inr (replicate 257 0)"
proof -
  have "map (\<lambda>i. if (2::int) \<le> int i \<and> int i < 2
                   then real_of_int (2 - int i) / real_of_int (2 - 2)
                   else if 1 \<le> int i \<and> int i < 2
                   then real_of_int (int i - 1) / real_of_int (2 - 1)
                   else 0) [0..<257] = replicate 257 (0::real)"
    by (rule nth_equalityI) auto
  then show ?thesis using mel_filter_row[of 1 2 2 257] by simp
qed

theorem initializeMelFilterbank_triangles_witness:
  "0 < ap_sample_rate default_ap_config \<and> 0 \<le> n_fft default_ap_config
   \<and> 0 \<le> n_mels default_ap_config \<and> 1 < nat (n_mels default_ap_config)
   \<and> 2 < nat (n_mels default_ap_config)
   \<and> (\<exists>fb. initializeMelFilterbank default_ap_config = Inr fb \<and> length fb = 80
          \<and> length (fb ! 1) = 257 \<and> fb ! 1 ! 0 = 0 \<and> fb ! 1 ! 1 = 1 \<and> fb ! 1 ! 2 = 0
          \<and> length (fb ! 2) = 257 \<and> fb ! 2 ! 1 = 0 \<and> fb ! 2 ! 2 = 0)"
proof -
  have h: "0 < ap_sample_rate default_ap_config" "0 \<le> n_fft default_ap_config"
    "0 \<le> n_mels default_ap_config"
    and i1: "1 < nat (n_mels default_ap_config)" and i2: "2 < nat (n_mels default_ap_config)"
    by (simp_all add: default_ap_config_def)
  have a: "(1::nat) + 1 = 2" "(1::nat) + 2 = 3" "(2::nat) + 1 = 3" "(2::nat) + 2 = 4"
    by simp_all
  have b: "bin_points default_ap_config ! 1 = 0" "bin_points default_ap_config ! (1 + 1) = 1"
    "bin_points default_ap_config ! (1 + 2) = 2" "bin_points default_ap_config ! 2 = 1"
    "bin_points default_ap_config ! (2 + 1) = 2" "bin_points default_ap_config ! (2 + 2) = 2"
    unfolding a by (rule default_bin_1 default_bin_2 default_bin_3 default_bin_4)+
  from initializeMelFilterbank_triangles[OF h i1, unfolded b]
  obtain fb where fb: "initializeMelFilterbank default_ap_config = Inr fb"
    "length fb = nat (n_mels default_ap_config)"
    and l1: "length (fb ! 1) = nat (n_fft default_ap_config div 2 + 1)"
    and w1: "\<forall>j<length (fb ! 1).
           (int j < 0 \<or> 2 \<le> int j \<longrightarrow> fb ! 1 ! j = 0)
         \<and> (0 \<le> int j \<and> int j < 1 \<longrightarrow>
              fb ! 1 ! j = real_of_int (int j - 0) / real_of_int (1 - 0))
         \<and> (1 \<le> int j \<and> int j < 2 \<longrightarrow>
              fb ! 1 ! j = real_of_int (2 - int j) / real_of_int (2 - 1))"
    by blast
  from initializeMelFilterbank_triangles[OF h i2, unfolded b]
  obtain fb' where fb': "initializeMelFilterbank default_ap_config = Inr fb'"
    and l2: "length (fb' ! 2) = nat (n_fft default_ap_config div 2 + 1)"
    and w2: "\<forall>j<length (fb' ! 2).
           (int j < 1 \<or> 2 \<le> int j \<longrightarrow> fb' ! 2 ! j = 0)
         \<and> (1 \<le> int j \<and> int j < 2 \<longrightarrow>
              fb' ! 2 ! j = real_of_int (int j - 1) / real_of_int (2 - 1))
         \<and> (2 \<le> int j \<and> int j < 2 \<longrightarrow>
              fb' ! 2 ! j = real_of_int (2 - int j) / real_of_int (2 - 2))"
    by blast
  have same: "fb' = fb" using fb(1) fb' by simp
  have n1: "length (fb ! 1) = 257" using l1 by (simp add: default_ap_config_def)
  have n2: "length (fb ! 2) = 257" using l2 same by (simp add: default_ap_config_def)
  have j1: "0 < length (fb ! 1)" "1 < length (fb ! 1)" "2 < length (fb ! 1)"
    using n1 by simp_all
  have j2: "1 < length (fb' ! 2)" "2 < length (fb' ! 2)"
    using n2 same by simp_all
  have v10: "fb ! 1 ! 0 = 0" using w1[rule_format, OF j1(1)] by simp
  have v11: "fb ! 1 ! 1 = 1" using w1[rule_format, OF j1(2)] by simp
  have v12: "fb ! 1 ! 2 = 0" using w1[rule_format, OF j1(3)] by simp
  have v21: "fb ! 2 ! 1 = 0" using w2[rule_format, OF j2(1)] same by simp
  have v22: "fb ! 2 ! 2 = 0" using w2[rule_format, OF j2(2)] same by simp
  have "length fb = 80" using fb(2) by (simp add: default_ap_config_def)
  then show ?thesis
    using h i1 i2 fb(1) n1 n2 v10 v11 v12 v21 v22 by blast
qed

text \<open>
  The claim as it is worded, a weight of exactly 1.0 at \<open>bin_{i+1}\<close> for every filter,
  fails where two neighbouring bin points coincide. In the default configuration
  (16 kHz, \<open>n_fft = 512\<close>, 80 filters) the bin points 2, 3 and 4 are 1, 2 and 2, so
  filter 2 has \<open>bin_{i+1} = bin_{i+2} = 2\<close>: both of its loops leave bin 2 alone, the
  whole filter is zero, and its weight at \<open>bin_{i+1}\<close> is 0.
\<close>

theorem mel_filter_peak_counterexample:
  "bin_points default_ap_config ! 2 = 1
   \<and> bin_points default_ap_config ! 3 = 2
   \<and> bin_points default_ap_config ! 4 = 2
   \<and> mel_filter 257 1 2 2 = Inr (replicate 257 0)
   \<and> replicate 257 (0::real) ! 2 \<noteq> 1"
  using default_bin_2 default_bin_3 default_bin_4 mel_filter_flat by simp

section \<open>Properties of the CTC decoder\<close>

lemma argmax_loop_append:
  "argmax_loop logits base (xs @ ys) p = argmax_loop logits base ys (argmax_loop logits base xs p)"
  by (induction xs arbitrary: p) (auto split: prod.splits)

lemma argmax_loop_inv:
  "0 < k \<Longrightarrow> (case argmax_loop logits base [1..<k] (0, logits ! base) of
       (m, p) \<Rightarrow> p = logits ! (base + m) \<and> is_low_argmax logits base k m)"
proof (induction k)
  case 0 then show ?case by simp
next
  case (Suc k)
  show ?case
  proof (cases "k = 0")
    case True then show ?thesis by (simp add: is_low_argmax_def)
  next
    case False
    then have IH: "case argmax_loop logits base [1..<k] (0, logits ! base) of
       (m, p) \<Rightarrow> p = logits ! (base + m) \<and> is_low_argmax logits base k m" using Suc by simp
    obtain m p where mp: "argmax_loop logits base [1..<k] (0, logits ! base) = (m, p)" by force
    from IH mp have p: "p = logits ! (base + m)" and low: "is_low_argmax logits base k m" by auto
    have k1: "Suc 0 \<le> k" using False by simp
    have upt: "[1..<Suc k] = [1..<k] @ [k]" using k1 by simp
    show ?thesis
    proof (cases "logits ! (base + k) > p")
      case True
      have "is_low_argmax logits base (Suc k) k"
        unfolding is_low_argmax_def using low True p
        by (auto simp: is_low_argmax_def less_Suc_eq intro: order.strict_trans1 less_imp_le)
      then show ?thesis using True mp k1 by (simp add: upt argmax_loop_append)
    next
      case F: False
      have "is_low_argmax logits base (Suc k) m"
        unfolding is_low_argmax_def using low F p
        by (auto simp: is_low_argmax_def less_Suc_eq)
      then show ?thesis using F mp p k1 by (simp add: upt argmax_loop_append)
    qed
  qed
qed

lemma is_low_argmax_unique:
  "is_low_argmax logits base k m \<Longrightarrow> is_low_argmax logits base k m' \<Longrightarrow> m = m'"
  unfolding is_low_argmax_def
  by (metis linorder_neqE_nat not_less)

lemma argmax_at_low: "0 < V \<Longrightarrow> is_low_argmax logits base V (argmax_at logits base V)"
  using argmax_loop_inv[of V logits base] by (auto simp: argmax_at_def split: prod.splits)

lemma lowest_argmax_low:
  assumes "row \<noteq> []"
  shows "is_low_argmax row 0 (length row) (lowest_argmax row)"
proof -
  let ?P = "\<lambda>i. i < length row \<and> (\<forall>j<length row. row ! j \<le> row ! i)"
  have ex: "?P (argmax_at row 0 (length row))"
    using argmax_at_low[of "length row" row 0] assms by (simp add: is_low_argmax_def)
  have P: "?P (lowest_argmax row)" unfolding lowest_argmax_def by (rule LeastI[of ?P, OF ex])
  have least: "\<And>j. j < lowest_argmax row \<Longrightarrow> \<not> ?P j"
    unfolding lowest_argmax_def by (rule not_less_Least)
  have "\<forall>j<lowest_argmax row. row ! j < row ! lowest_argmax row"
  proof (intro allI impI)
    fix j assume j: "j < lowest_argmax row"
    show "row ! j < row ! lowest_argmax row"
    proof (rule ccontr)
      assume "\<not> row ! j < row ! lowest_argmax row"
      then have "row ! lowest_argmax row \<le> row ! j" by simp
      then have "?P j" using P j by (meson le_less_trans less_imp_le order_trans dual_order.strict_trans)
      then show False using least[OF j] by simp
    qed
  qed
  then show ?thesis using P by (simp add: is_low_argmax_def)
qed

lemma lowest_argmax_code: "row \<noteq> [] \<Longrightarrow> lowest_argmax row = argmax_at row 0 (length row)"
  using is_low_argmax_unique[OF lowest_argmax_low argmax_at_low[of "length row" row 0]] by simp

lemma concat_nth_row:
  "\<forall>r\<in>set rows. length r = V \<Longrightarrow> t < length rows \<Longrightarrow> j < V \<Longrightarrow>
     concat rows ! (t * V + j) = rows ! t ! j"
proof (induction rows arbitrary: t)
  case Nil then show ?case by simp
next
  case (Cons r rows)
  show ?case
  proof (cases t)
    case 0 then show ?thesis using Cons.prems by (simp add: nth_append)
  next
    case (Suc t')
    then have "concat rows ! (t' * V + j) = rows ! t' ! j" using Cons by simp
    moreover have "Suc t' * V + j = length r + (t' * V + j)" using Cons.prems by simp
    ultimately show ?thesis using Suc by (simp add: nth_append del: mult_Suc)
  qed
qed

lemma length_concat_rows:
  "\<forall>r\<in>set rows. length r = V \<Longrightarrow> length (concat rows) = length rows * V"
  by (induction rows) auto

lemma argmax_at_row:
  assumes "\<forall>r\<in>set rows. length r = V" "t < length rows" "0 < V"
  shows "argmax_at (concat rows) (t * V) V = lowest_argmax (rows ! t)"
proof -
  have len: "length (rows ! t) = V" using assms by simp
  have "is_low_argmax (concat rows) (t * V) V (argmax_at (concat rows) (t * V) V)"
    using assms(3) by (rule argmax_at_low)
  then have "is_low_argmax (rows ! t) 0 V (argmax_at (concat rows) (t * V) V)"
    unfolding is_low_argmax_def using concat_nth_row[OF assms(1,2)] by auto
  moreover have "is_low_argmax (rows ! t) 0 V (lowest_argmax (rows ! t))"
    using lowest_argmax_low[of "rows ! t"] len assms(3) by auto
  ultimately show ?thesis by (rule is_low_argmax_unique)
qed

lemma ctc_collapse_snoc:
  "ctc_collapse b (raw @ [a]) =
     ctc_collapse b raw @ (if a \<noteq> b \<and> (raw = [] \<or> a \<noteq> last raw) then [a] else [])"
proof -
  let ?P = "\<lambda>xs t. xs ! t \<noteq> b \<and> (t = 0 \<or> xs ! t \<noteq> xs ! (t - 1))"
  have f: "filter (?P (raw @ [a])) [0..<length raw] = filter (?P raw) [0..<length raw]"
    by (rule filter_cong) (auto simp: nth_append)
  have m: "map ((!) (raw @ [a])) (filter (?P raw) [0..<length raw])
         = map ((!) raw) (filter (?P raw) [0..<length raw])"
    by (rule map_cong) (auto simp: nth_append)
  have l: "raw \<noteq> [] \<Longrightarrow> raw ! (length raw - 1) = last raw" by (simp add: last_conv_nth)
  show ?thesis
    unfolding ctc_collapse_def using f m l
    by (cases "raw = []") (auto simp: nth_append)
qed

lemma ctc_loop_prefix:
  assumes rows: "\<forall>r\<in>set rows. length r = V" and V: "0 < V"
    and small: "length rows * V < 2 ^ 31"
  shows "k \<le> length rows \<Longrightarrow>
     ctc_loop b (concat rows) (int V) ([0..<k] @ rest) (-1) [] =
     ctc_loop b (concat rows) (int V) rest
       (if k = 0 then -1 else int (lowest_argmax (rows ! (k - 1))))
       (ctc_collapse b (map (\<lambda>r. int (lowest_argmax r)) (take k rows)))"
proof (induction k arbitrary: rest)
  case 0 then show ?case by (simp add: ctc_collapse_def)
next
  case (Suc k)
  have k: "k < length rows" using Suc.prems by simp
  have kV: "k * V + V \<le> length rows * V" using k
    by (metis Suc_leI mult_Suc mult_le_mono1 add.commute)
  have bound: "k * V + V \<le> length (concat rows)"
    using kV by (simp add: length_concat_rows[OF rows])
  have base: "int k * int V = int (k * V)" by simp
  have mx: "max 1 (int V) = int V" using V by simp
  have lastidx: "int (k * V) + int V - 1 = int (k * V + V - 1)" using V by simp
  have fits1: "in_int32 (int (k * V))"
  proof -
    have "k * V < 2 ^ 31" using kV small by simp
    then have "int (k * V) < 2 ^ 31" by (metis of_nat_less_numeral_power_cancel_iff)
    moreover have "(0::int) \<le> int (k * V)" by (rule of_nat_0_le_iff)
    ultimately show ?thesis unfolding in_int32_def by linarith
  qed
  have fits2: "in_int32 (int (k * V + V - 1))"
  proof -
    have "k * V + V - 1 < 2 ^ 31" using kV small by simp
    then have "int (k * V + V - 1) < 2 ^ 31" by (metis of_nat_less_numeral_power_cancel_iff)
    moreover have "(0::int) \<le> int (k * V + V - 1)" by (rule of_nat_0_le_iff)
    ultimately show ?thesis unfolding in_int32_def by linarith
  qed
  have inside: "\<not> (int (k * V) < 0 \<or> int (length (concat rows)) < int (k * V) + int V)"
    using bound by (simp only: of_nat_add[symmetric] of_nat_less_iff of_nat_less_0_iff) simp
  have tk: "take (Suc k) rows = take k rows @ [rows ! k]" using k by (simp add: take_Suc_conv_app_nth)
  have lst: "k \<noteq> 0 \<Longrightarrow> last (map (\<lambda>r. int (lowest_argmax r)) (take k rows)) = int (lowest_argmax (rows ! (k - 1)))"
  proof -
    assume k0: "k \<noteq> 0"
    then have ne: "take k rows \<noteq> []" using k by auto
    have "last (take k rows) = rows ! (k - 1)"
      using k k0 ne by (simp add: last_conv_nth min_def)
    then show ?thesis using ne by (simp add: last_map)
  qed
  define a where "a = int (lowest_argmax (rows ! k))"
  define prev where "prev = (if k = 0 then -1 else int (lowest_argmax (rows ! (k - 1))))"
  define toks where "toks = ctc_collapse b (map (\<lambda>r. int (lowest_argmax r)) (take k rows))"
  have am: "int (argmax_at (concat rows) (k * V) V) = a"
    using argmax_at_row[OF rows k V] by (simp add: a_def)
  have step: "ctc_loop b (concat rows) (int V) (k # rest) prev toks =
      ctc_loop b (concat rows) (int V) rest a (if a \<noteq> b \<and> a \<noteq> prev then toks @ [a] else toks)"
    using fits1 fits2 inside am
    by (simp only: ctc_loop.simps Let_def base mx lastidx nat_int if_False if_True simp_thms)
  have a0: "0 \<le> a" by (simp add: a_def)
  have cond: "(take k rows = [] \<or> a \<noteq> last (map (\<lambda>r. int (lowest_argmax r)) (take k rows)))
               \<longleftrightarrow> a \<noteq> prev"
  proof (cases "k = 0")
    case True then show ?thesis using a0 by (simp add: prev_def)
  next
    case False
    then have "take k rows \<noteq> []" using k by auto
    then show ?thesis using lst[OF False] False by (simp add: prev_def)
  qed
  have coll: "ctc_collapse b (map (\<lambda>r. int (lowest_argmax r)) (take (Suc k) rows)) =
      (if a \<noteq> b \<and> a \<noteq> prev then toks @ [a] else toks)"
    using cond by (simp add: tk ctc_collapse_snoc toks_def a_def)
  have "ctc_loop b (concat rows) (int V) ([0..<Suc k] @ rest) (-1) [] =
        ctc_loop b (concat rows) (int V) ([0..<k] @ (k # rest)) (-1) []" by simp
  also have "\<dots> = ctc_loop b (concat rows) (int V) (k # rest) prev toks"
    unfolding prev_def toks_def using Suc.IH[of "k # rest"] k by (simp del: ctc_loop.simps)
  also have "\<dots> = ctc_loop b (concat rows) (int V) rest a
      (ctc_collapse b (map (\<lambda>r. int (lowest_argmax r)) (take (Suc k) rows)))"
    using step coll by simp
  finally show ?case by (simp add: a_def)
qed

lemma to_int32_small: "n < 2 ^ 31 \<Longrightarrow> to_int32 (int n) = int n"
proof -
  assume "n < 2 ^ 31"
  then have "int n < 2 ^ 31" by (metis of_nat_less_numeral_power_cancel_iff)
  then show ?thesis by (simp add: to_int32_def)
qed

lemma decodeCTC_refines:
  assumes "rows \<noteq> []" and "\<forall>r\<in>set rows. length r = V" and "0 < V"
    and "length rows * V < 2 ^ 31"
  shows "decodeCTC blankId (concat rows) (int (length rows)) =
           Inr (ctc_collapse blankId (map (\<lambda>r. int (lowest_argmax r)) rows))"
proof -
  have T: "0 < length rows" using assms(1) by simp
  have vs: "length (concat rows) div length rows = V"
    using T by (simp add: length_concat_rows[OF assms(2)])
  have "1 \<le> length rows" using assms(1) by (cases rows) simp_all
  then have "1 * V \<le> length rows * V" by (rule mult_le_mono1)
  then have "V \<le> length rows * V" by (simp only: mult_1)
  then have "V < 2 ^ 31" using assms(4) by (rule le_less_trans)
  then have vi: "to_int32 (int V) = int V" by (rule to_int32_small)
  have "ctc_loop blankId (concat rows) (int V) ([0..<length rows] @ []) (-1) [] =
        Inr (ctc_collapse blankId (map (\<lambda>r. int (lowest_argmax r)) rows))"
    by (subst ctc_loop_prefix[OF assms(2,3,4)]) simp_all
  then show ?thesis using T vs vi by (simp add: decodeCTC_def)
qed

lemma ctc_collapse_example: "ctc_collapse 0 [0, 2, 2, 0, 3, 3, 3, 0] = [2, 3]"
  by (simp add: ctc_collapse_def upt_rec)

lemma decodeCTC_no_steps: "decodeCTC blankId logits 0 = Inl DivByZero"
  by (simp add: decodeCTC_def)

lemma decodeCTC_no_columns:
  assumes "0 < T"
  shows "decodeCTC blankId [] T = Inl OutOfRange"
proof -
  have "[0..<nat T] = 0 # [1..<nat T]" using assms by (simp add: upt_rec)
  then show ?thesis using assms by (simp add: decodeCTC_def to_int32_def in_int32_def)
qed

text \<open>
  Claim C2. The decoding rule is the one \<open>decodeCTC\<close> computes on every logits matrix
  of \<open>T \<ge> 1\<close> rows of \<open>V \<ge> 1\<close> entries, passed flattened row by row, whose \<open>T * V\<close>
  entries can be indexed in \<^verbatim>\<open>int\<close> (\<open>T * V < 2^31\<close>): the function returns, and its
  result is obtained from the per-step argmax with ties broken toward the lowest
  index, by keeping the token of step \<open>t\<close> exactly when it differs from the blank and
  from the raw argmax of step \<open>t - 1\<close> (the first step has no predecessor). The argmax
  of each row is an index of the row, no entry of the row is larger and every entry
  before it is strictly smaller. When the raw argmax sequence is
  blank, 2, 2, blank, 3, 3, 3, blank with blank 0, the result is 2, 3.

  The matrix with no rows is where the function departs from the rule. The rule
  gives the empty token sequence there; the function divides \<^verbatim>\<open>logits.size()\<close> by
  the sequence length first, so with the sequence length 0 it does not return at
  all, whatever the logits and the blank are. The matrix with rows but no columns
  has no argmax: the function reads \<^verbatim>\<open>logits[0]\<close> of the empty vector.
\<close>

theorem decodeCTC_empty_matrix_divides_by_zero:
  "decodeCTC blankId logits 0 = Inl DivByZero
   \<and> ctc_collapse blankId (map (\<lambda>r. int (lowest_argmax r)) []) = []
   \<and> (0 < T \<longrightarrow> decodeCTC blankId [] T = Inl OutOfRange)
   \<and> (rows \<noteq> [] \<and> (\<forall>r\<in>set rows. length r = V) \<and> 0 < V \<and> length rows * V < 2 ^ 31 \<longrightarrow>
        decodeCTC blankId (concat rows) (int (length rows)) =
           Inr (ctc_collapse blankId (map (\<lambda>r. int (lowest_argmax r)) rows))
        \<and> (\<forall>t<length rows. is_low_argmax (rows ! t) 0 V (lowest_argmax (rows ! t)))
        \<and> (map (\<lambda>r. int (lowest_argmax r)) rows = [0, 2, 2, 0, 3, 3, 3, 0] \<longrightarrow>
             decodeCTC 0 (concat rows) (int (length rows)) = Inr [2, 3]))"
proof -
  have a: "decodeCTC blankId logits 0 = Inl DivByZero" by (rule decodeCTC_no_steps)
  have b: "ctc_collapse blankId (map (\<lambda>r. int (lowest_argmax r)) []) = []"
    by (simp add: ctc_collapse_def)
  have c: "0 < T \<longrightarrow> decodeCTC blankId [] T = Inl OutOfRange"
    using decodeCTC_no_columns by blast
  have d: "rows \<noteq> [] \<and> (\<forall>r\<in>set rows. length r = V) \<and> 0 < V \<and> length rows * V < 2 ^ 31 \<longrightarrow>
        decodeCTC blankId (concat rows) (int (length rows)) =
           Inr (ctc_collapse blankId (map (\<lambda>r. int (lowest_argmax r)) rows))
        \<and> (\<forall>t<length rows. is_low_argmax (rows ! t) 0 V (lowest_argmax (rows ! t)))
        \<and> (map (\<lambda>r. int (lowest_argmax r)) rows = [0, 2, 2, 0, 3, 3, 3, 0] \<longrightarrow>
             decodeCTC 0 (concat rows) (int (length rows)) = Inr [2, 3])"
  proof (rule impI, elim conjE, intro conjI allI impI)
    assume h: "rows \<noteq> []" "\<forall>r\<in>set rows. length r = V" "0 < V" "length rows * V < 2 ^ 31"
    show "decodeCTC blankId (concat rows) (int (length rows)) =
             Inr (ctc_collapse blankId (map (\<lambda>r. int (lowest_argmax r)) rows))"
      using h by (rule decodeCTC_refines)
  next
    assume h: "rows \<noteq> []" "\<forall>r\<in>set rows. length r = V" "0 < V" "length rows * V < 2 ^ 31"
    fix t assume t: "t < length rows"
    then have "rows ! t \<in> set rows" by simp
    then have "length (rows ! t) = V" using h(2) by blast
    then have "length (rows ! t) = V" "rows ! t \<noteq> []" using h(3) by auto
    then show "is_low_argmax (rows ! t) 0 V (lowest_argmax (rows ! t))"
      using lowest_argmax_low[of "rows ! t"] by simp
  next
    assume h: "rows \<noteq> []" "\<forall>r\<in>set rows. length r = V" "0 < V" "length rows * V < 2 ^ 31"
    assume "map (\<lambda>r. int (lowest_argmax r)) rows = [0, 2, 2, 0, 3, 3, 3, 0]"
    then show "decodeCTC 0 (concat rows) (int (length rows)) = Inr [2, 3]"
      using decodeCTC_refines[OF h, of 0] ctc_collapse_example by simp
  qed
  show ?thesis by (rule conjI[OF a conjI[OF b conjI[OF c d]]])
qed

theorem decodeCTC_empty_matrix_divides_by_zero_witness:
  "decodeCTC 0 [] 0 = Inl DivByZero
   \<and> ctc_collapse 0 (map (\<lambda>r. int (lowest_argmax r)) []) = []
   \<and> (0::int) < 8
   \<and> decodeCTC 0 [] 8 = Inl OutOfRange
   \<and> [[1, 0, 0, 0], [0, 0, 1, 0], [0, 0, 1, 0], [1, 0, 0, 0],
      [0, 0, 0, 1], [0, 0, 0, 1], [0, 0, 0, 1], [1, 0, 0, 0 :: real]] \<noteq> []
   \<and> list_all (\<lambda>r. length r = 4)
         [[1, 0, 0, 0], [0, 0, 1, 0], [0, 0, 1, 0], [1, 0, 0, 0],
          [0, 0, 0, 1], [0, 0, 0, 1], [0, 0, 0, 1], [1, 0, 0, 0 :: real]]
   \<and> (0::nat) < 4
   \<and> length [[1, 0, 0, 0], [0, 0, 1, 0], [0, 0, 1, 0], [1, 0, 0, 0],
          [0, 0, 0, 1], [0, 0, 0, 1], [0, 0, 0, 1], [1, 0, 0, 0 :: real]] * 4 < (2::nat) ^ 31
   \<and> decodeCTC 0 [1, 0, 0, 0,  0, 0, 1, 0,  0, 0, 1, 0,  1, 0, 0, 0,
                  0, 0, 0, 1,  0, 0, 0, 1,  0, 0, 0, 1,  1, 0, 0, 0] 8 = Inr [2, 3]"
proof -
  let ?rows = "[[1, 0, 0, 0], [0, 0, 1, 0], [0, 0, 1, 0], [1, 0, 0, 0],
    [0, 0, 0, 1], [0, 0, 0, 1], [0, 0, 0, 1], [1, 0, 0, 0 :: real]]"
  have h: "?rows \<noteq> [] \<and> (\<forall>r\<in>set ?rows. length r = 4) \<and> (0::nat) < 4
           \<and> length ?rows * 4 < (2::nat) ^ 31" by simp
  have raw: "map (\<lambda>r. int (lowest_argmax r)) ?rows = [0, 2, 2, 0, 3, 3, 3, 0]"
    by (simp add: lowest_argmax_code argmax_at_def upt_rec)
  note inst = decodeCTC_empty_matrix_divides_by_zero[of 0 "[]" 8 ?rows 4]
  have z: "decodeCTC 0 [] 0 = Inl DivByZero" using inst by blast
  have e: "ctc_collapse 0 (map (\<lambda>r. int (lowest_argmax r)) []) = []" using inst by blast
  have o: "decodeCTC 0 [] 8 = Inl OutOfRange" using inst by simp
  have "decodeCTC 0 (concat ?rows) (int (length ?rows)) = Inr [2, 3]"
    using inst h raw by blast
  then show ?thesis using z e o by simp
qed

section \<open>Properties of the neural detector\<close>


lemma fit_window_exact: "length audio = ws \<Longrightarrow> fit_window ws audio = audio"
  by (simp add: fit_window_def)


text \<open>
  Claim C8. In an initialised detector (a session, and a context of between
  \<open>context_size\<close> and \<open>context_size + window_size\<close> samples, as \<open>reset\<close> leaves it), when the
  run of the model on the frame throws, \<open>detectVAD\<close> returns the probability 0; the
  hidden state, the cell state and the probability history are as before the call.
\<close>

theorem detectVAD_inference_error:
  assumes "session d = Some run"
    and "context_size (vad_cfg d) \<le> length (context_buf d)"
    and "length (context_buf d) \<le> context_size (vad_cfg d) + window_size (vad_cfg d)"
    and "run (model_input d audio) (state_h d) (vad_sample_rate (vad_cfg d)) = None"
  shows "\<exists>d'. detectVAD d audio = Inr (0, d') \<and> state_h d' = state_h d
            \<and> state_c d' = state_c d \<and> prob_history d' = prob_history d
            \<and> vad_cfg d' = vad_cfg d \<and> session d' = session d"
  using assms by (simp add: detectVAD_def Let_def)

theorem detectVAD_inference_error_witness:
  "session (example_detector\<lparr>session := Some failing_engine\<rparr>) = Some failing_engine
   \<and> context_size (vad_cfg example_detector) \<le> length (context_buf example_detector)
   \<and> length (context_buf example_detector)
        \<le> context_size (vad_cfg example_detector) + window_size (vad_cfg example_detector)
   \<and> failing_engine (model_input (example_detector\<lparr>session := Some failing_engine\<rparr>) [3, 4])
        (state_h example_detector) (vad_sample_rate (vad_cfg example_detector)) = None
   \<and> (\<exists>d'. detectVAD (example_detector\<lparr>session := Some failing_engine\<rparr>) [3, 4] = Inr (0, d')
          \<and> prob_history d' = [1, 1, 1])"
proof -
  let ?d = "example_detector\<lparr>session := Some failing_engine\<rparr>"
  have h1: "session ?d = Some failing_engine" by simp
  have h2: "context_size (vad_cfg ?d) \<le> length (context_buf ?d)"
    by (simp add: example_detector_def)
  have h3: "length (context_buf ?d) \<le> context_size (vad_cfg ?d) + window_size (vad_cfg ?d)"
    by (simp add: example_detector_def)
  have h4: "failing_engine (model_input ?d [3, 4]) (state_h ?d) (vad_sample_rate (vad_cfg ?d))
              = None"
    by (simp add: failing_engine_def)
  from detectVAD_inference_error[OF h1 h2 h3 h4]
  obtain d' where "detectVAD ?d [3, 4] = Inr (0, d')" "prob_history d' = prob_history ?d"
    by blast
  then have "\<exists>d'. detectVAD ?d [3, 4] = Inr (0, d') \<and> prob_history d' = [1, 1, 1]"
    by (simp add: example_detector_def)
  then show ?thesis using h2 h3 by (simp add: failing_engine_def)
qed

subsection \<open>Reset and repeated sessions\<close>

lemma reset_eq:
  "vad_cfg d' = vad_cfg d \<Longrightarrow> session d' = session d \<Longrightarrow> reset d' = reset d"
  by (simp add: reset_def)

text \<open>
  Claim C9. \<open>reset\<close> leaves 256 zeros as hidden state and as cell state,
  \<open>context_size\<close> zeros as context and an empty probability history. Therefore two
  runs of a detector with the same configuration and the same (deterministic) engine,
  each begun with \<open>reset\<close> and fed the same frames, return the same sequence of
  probabilities, whatever state each detector was in before its reset. The same holds
  one level up: the reset at the head of \<open>recordAudio\<close> also empties the sample
  buffer in front of the detector, so two sessions of recorders with the same
  configuration and the same detector configuration and engine, started at the same
  clock reading and given the same callbacks, end in the same state.
\<close>

theorem reset_reproducible:
  "state_h (reset d) = replicate 256 0
   \<and> state_c (reset d) = replicate 256 0
   \<and> context_buf (reset d) = replicate (context_size (vad_cfg d)) 0
   \<and> prob_history (reset d) = []
   \<and> (vad_cfg d' = vad_cfg d \<and> session d' = session d \<longrightarrow>
        run_detector (reset d') frames = run_detector (reset d) frames)
   \<and> (rec_cfg r' = rec_cfg r
        \<and> map_option vad_cfg (vad_detector r') = map_option vad_cfg (vad_detector r)
        \<and> map_option session (vad_detector r') = map_option session (vad_detector r) \<longrightarrow>
        callbacks (start_session t r') evs = callbacks (start_session t r) evs)"
proof -
  have cleared: "state_h (reset d) = replicate 256 0 \<and> state_c (reset d) = replicate 256 0
     \<and> context_buf (reset d) = replicate (context_size (vad_cfg d)) 0
     \<and> prob_history (reset d) = []"
    by (simp add: reset_def)
  have same: "vad_cfg d' = vad_cfg d \<and> session d' = session d \<longrightarrow>
        run_detector (reset d') frames = run_detector (reset d) frames"
  proof
    assume "vad_cfg d' = vad_cfg d \<and> session d' = session d"
    then have "reset d' = reset d" using reset_eq[of d' d] by blast
    then show "run_detector (reset d') frames = run_detector (reset d) frames" by simp
  qed
  have sessions: "rec_cfg r' = rec_cfg r
        \<and> map_option vad_cfg (vad_detector r') = map_option vad_cfg (vad_detector r)
        \<and> map_option session (vad_detector r') = map_option session (vad_detector r) \<longrightarrow>
        callbacks (start_session t r') evs = callbacks (start_session t r) evs"
  proof
    assume h: "rec_cfg r' = rec_cfg r
        \<and> map_option vad_cfg (vad_detector r') = map_option vad_cfg (vad_detector r)
        \<and> map_option session (vad_detector r') = map_option session (vad_detector r)"
    have "map_option reset (vad_detector r') = map_option reset (vad_detector r)"
    proof (cases "vad_detector r")
      case None
      then show ?thesis using h by simp
    next
      case (Some a)
      then obtain a' where a': "vad_detector r' = Some a'" using h by auto
      then have "reset a' = reset a" using h Some reset_eq[of a' a] by simp
      then show ?thesis using Some a' by simp
    qed
    then have "start_session t r' = start_session t r"
      using h by (simp add: start_session_def)
    then show "callbacks (start_session t r') evs = callbacks (start_session t r) evs"
      by simp
  qed
  show ?thesis using cleared same sessions by blast
qed

lemma example_run:
  "run_detector (reset example_detector) [[1, 2], [3, 4]] = Inr [1 / 10, 1 / 4]"
  by (simp add: reset_def example_detector_def example_engine_def detectVAD_def
        model_input_def fit_window_def update_states_def copy_state_def smooth_def
        bind_fault_def Let_def)

theorem reset_reproducible_witness:
  "vad_cfg (example_detector\<lparr>state_h := replicate 256 5, context_buf := [4],
              prob_history := [0]\<rparr>) = vad_cfg example_detector
   \<and> session (example_detector\<lparr>state_h := replicate 256 5, context_buf := [4],
              prob_history := [0]\<rparr>) = session example_detector
   \<and> run_detector (reset (example_detector\<lparr>state_h := replicate 256 5, context_buf := [4],
              prob_history := [0]\<rparr>)) [[1, 2], [3, 4]]
       = run_detector (reset example_detector) [[1, 2], [3, 4]]
   \<and> run_detector (reset example_detector) [[1, 2], [3, 4]] = Inr [1 / 10, 1 / 4]
   \<and> rec_cfg (new_recorder\<lparr>audio_buffer := [1], vad_buffer := [2], speech_detected := True,
                  vad_detector := Some example_detector\<rparr>)
       = rec_cfg (new_recorder\<lparr>vad_detector := Some (reset example_detector)\<rparr>)
   \<and> callbacks (start_session 0 (new_recorder\<lparr>audio_buffer := [1], vad_buffer := [2],
                  speech_detected := True, vad_detector := Some example_detector\<rparr>))
         [([1, 1], 1 / 10)]
       = callbacks (start_session 0 (new_recorder\<lparr>vad_detector := Some (reset example_detector)\<rparr>))
           [([1, 1], 1 / 10)]"
proof -
  let ?d' = "example_detector\<lparr>state_h := replicate 256 5, context_buf := [4],
              prob_history := [0]\<rparr>"
  let ?r' = "new_recorder\<lparr>audio_buffer := [1], vad_buffer := [2], speech_detected := True,
                  vad_detector := Some example_detector\<rparr>"
  let ?r = "new_recorder\<lparr>vad_detector := Some (reset example_detector)\<rparr>"
  have h: "vad_cfg ?d' = vad_cfg example_detector \<and> session ?d' = session example_detector"
    by simp
  have g: "rec_cfg ?r' = rec_cfg ?r
        \<and> map_option vad_cfg (vad_detector ?r') = map_option vad_cfg (vad_detector ?r)
        \<and> map_option session (vad_detector ?r') = map_option session (vad_detector ?r)"
    by (simp add: reset_def)
  note T = reset_reproducible[of example_detector ?d' "[[1, 2], [3, 4]]" ?r' ?r 0
             "[([1, 1], 1 / 10)]"]
  from T h have 1: "run_detector (reset ?d') [[1, 2], [3, 4]]
          = run_detector (reset example_detector) [[1, 2], [3, 4]]"
    by blast
  from T g have 2: "callbacks (start_session 0 ?r') [([1, 1], 1 / 10)]
          = callbacks (start_session 0 ?r) [([1, 1], 1 / 10)]"
    by blast
  show ?thesis using h g 1 2 example_run by blast
qed

subsection \<open>One call of the neural detector from the recorder\<close>









section \<open>Properties of the capture callback\<close>

lemma computeSileroVAD_fields:
  assumes "computeSileroVAD r chunk = Inr (p, r')"
  shows "rec_cfg r' = rec_cfg r \<and> audio_buffer r' = audio_buffer r
       \<and> pre_speech_buffer r' = pre_speech_buffer r \<and> speech_detected r' = speech_detected r
       \<and> should_stop r' = should_stop r \<and> last_speech_time r' = last_speech_time r
       \<and> recording_start_time r' = recording_start_time r"
  using assms
  by (auto simp: computeSileroVAD_def bind_fault_def Let_def
           split: option.splits sum.splits if_splits prod.splits)

lemma detect_speech_fields:
  assumes "detect_speech r frame = Inr (is_speech, r')"
  shows "rec_cfg r' = rec_cfg r \<and> audio_buffer r' = audio_buffer r
       \<and> pre_speech_buffer r' = pre_speech_buffer r \<and> speech_detected r' = speech_detected r
       \<and> should_stop r' = should_stop r \<and> last_speech_time r' = last_speech_time r
       \<and> recording_start_time r' = recording_start_time r"
proof (cases "useEnergyVAD (rec_cfg r) \<or> \<not> (useSileroVAD (rec_cfg r) \<and> vad_detector r \<noteq> None)")
  case True
  then have "r' = r" using assms by (auto simp: detect_speech_def split: if_splits)
  then show ?thesis by simp
next
  case False
  then obtain p where "computeSileroVAD r frame = Inr (p, r')"
    using assms by (auto simp: detect_speech_def bind_fault_def split: sum.splits prod.splits)
  then show ?thesis by (rule computeSileroVAD_fields)
qed

lemma detect_speech_energy:
  "useEnergyVAD (rec_cfg r) \<or> vad_detector r = None \<Longrightarrow>
     detect_speech r frame = Inr (computeEnergyVAD frame > trigger_threshold (rec_cfg r), r)"
  by (auto simp: detect_speech_def)

lemma push_pre_speech_fields:
  "rec_cfg (push_pre_speech r frame) = rec_cfg r"
  "audio_buffer (push_pre_speech r frame) = audio_buffer r"
  "speech_detected (push_pre_speech r frame) = speech_detected r"
  "should_stop (push_pre_speech r frame) = should_stop r"
  "last_speech_time (push_pre_speech r frame) = last_speech_time r"
  "recording_start_time (push_pre_speech r frame) = recording_start_time r"
  "vad_detector (push_pre_speech r frame) = vad_detector r"
  by (simp_all add: push_pre_speech_def Let_def)

lemma processAudioFrame_split:
  assumes "processAudioFrame r frame now = Inr r'"
  obtains is_speech r1 where
    "detect_speech (push_pre_speech r frame) frame = Inr (is_speech, r1)"
    "r' = accumulate frame now (on_speech is_speech now r1)"
    "rec_cfg r1 = rec_cfg r" "audio_buffer r1 = audio_buffer r"
    "pre_speech_buffer r1 = pre_speech_buffer (push_pre_speech r frame)"
    "speech_detected r1 = speech_detected r" "should_stop r1 = should_stop r"
    "last_speech_time r1 = last_speech_time r"
    "recording_start_time r1 = recording_start_time r"
proof -
  from assms obtain is_speech r1 where
    d: "detect_speech (push_pre_speech r frame) frame = Inr (is_speech, r1)"
    and r': "r' = accumulate frame now (on_speech is_speech now r1)"
    by (auto simp: processAudioFrame_def bind_fault_def split: sum.splits prod.splits)
  from detect_speech_fields[OF d] push_pre_speech_fields[of r frame]
  show ?thesis using d r' that by simp
qed

lemma accumulate_stops:
  assumes "speech_detected r"
  shows "(now - last_speech_time r > silence_duration (rec_cfg r) \<longrightarrow>
            should_stop (accumulate frame now r))
       \<and> (now - recording_start_time r > max_record_time (rec_cfg r) \<longrightarrow>
            should_stop (accumulate frame now r))"
  using assms by (simp add: accumulate_def Let_def)

lemma accumulate_fields:
  "rec_cfg (accumulate frame now r) = rec_cfg r"
  "speech_detected (accumulate frame now r) = speech_detected r"
  "last_speech_time (accumulate frame now r) = last_speech_time r"
  "recording_start_time (accumulate frame now r) = recording_start_time r"
  "pre_speech_buffer (accumulate frame now r) = pre_speech_buffer r"
  "audio_buffer (accumulate frame now r) =
     (if speech_detected r then audio_buffer r @ frame else audio_buffer r)"
  by (simp_all add: accumulate_def Let_def)

lemma on_speech_fields:
  "rec_cfg (on_speech s now r) = rec_cfg r"
  "recording_start_time (on_speech s now r) = recording_start_time r"
  "pre_speech_buffer (on_speech s now r) = pre_speech_buffer r"
  "speech_detected (on_speech s now r) = (s \<or> speech_detected r)"
  "last_speech_time (on_speech s now r) = (if s then now else last_speech_time r)"
  "audio_buffer (on_speech s now r) =
     (if s \<and> \<not> speech_detected r then audio_buffer r @ pre_speech_buffer r
      else audio_buffer r)"
  by (simp_all add: on_speech_def Let_def)

text \<open>
  Claim C6. A callback in the energy mode, or without a detector, always returns. After
  any callback that returns with the machine recording (speech detected in this
  callback or an earlier one of the session), the stop flag is set whenever the time
  since the last speech-positive frame (this frame, when it is one) exceeds
  \<open>silence_duration\<close>, and whenever the time since the start of the recording exceeds
  \<open>max_record_time\<close>. The start of the recording is the clock reading that
  \<open>recordAudio\<close> stores at the reset of the session; the same then holds for the time
  since any later instant, such as the first speech frame. The cap holds whatever the
  detector says about the frame: a frame above \<open>trigger_threshold\<close> that arrives
  after the cap stops the recording.
\<close>

theorem processAudioFrame_stops:
  "((useEnergyVAD (rec_cfg r) \<or> vad_detector r = None) \<longrightarrow>
       (\<exists>r'. processAudioFrame r frame now = Inr r'))
   \<and> (\<forall>r'. processAudioFrame r frame now = Inr r' \<and> speech_detected r' \<longrightarrow>
         (last_speech_time r' = now \<or> last_speech_time r' = last_speech_time r)
       \<and> (now - last_speech_time r' > silence_duration (rec_cfg r) \<longrightarrow> should_stop r')
       \<and> (now - recording_start_time r > max_record_time (rec_cfg r) \<longrightarrow> should_stop r')
       \<and> (\<forall>t. recording_start_time r \<le> t \<and> now - t > max_record_time (rec_cfg r) \<longrightarrow>
              should_stop r'))
   \<and> ((useEnergyVAD (rec_cfg r) \<or> vad_detector r = None)
        \<and> computeEnergyVAD frame > trigger_threshold (rec_cfg r)
        \<and> now - recording_start_time r > max_record_time (rec_cfg r) \<longrightarrow>
         (\<exists>r'. processAudioFrame r frame now = Inr r' \<and> speech_detected r'
               \<and> last_speech_time r' = now \<and> should_stop r'))"
proof -
  have returns: "(useEnergyVAD (rec_cfg r) \<or> vad_detector r = None) \<longrightarrow>
       (\<exists>r'. processAudioFrame r frame now = Inr r')"
    using detect_speech_energy[of "push_pre_speech r frame" frame]
    by (simp add: processAudioFrame_def bind_fault_def push_pre_speech_fields)
  have stops: "\<forall>r'. processAudioFrame r frame now = Inr r' \<and> speech_detected r' \<longrightarrow>
         (last_speech_time r' = now \<or> last_speech_time r' = last_speech_time r)
       \<and> (now - last_speech_time r' > silence_duration (rec_cfg r) \<longrightarrow> should_stop r')
       \<and> (now - recording_start_time r > max_record_time (rec_cfg r) \<longrightarrow> should_stop r')
       \<and> (\<forall>t. recording_start_time r \<le> t \<and> now - t > max_record_time (rec_cfg r) \<longrightarrow>
              should_stop r')"
  proof (intro allI impI)
    fix r'
    assume h: "processAudioFrame r frame now = Inr r' \<and> speech_detected r'"
    then obtain is_speech r1 where
      r': "r' = accumulate frame now (on_speech is_speech now r1)"
      and f: "rec_cfg r1 = rec_cfg r" "recording_start_time r1 = recording_start_time r"
        "last_speech_time r1 = last_speech_time r"
      by (auto elim: processAudioFrame_split)
    let ?r2 = "on_speech is_speech now r1"
    have sd: "speech_detected ?r2" using h r' by (simp add: accumulate_fields)
    note st = accumulate_stops[OF sd, of now frame]
    have lst: "last_speech_time r' = now \<or> last_speech_time r' = last_speech_time r"
      using f by (simp add: r' accumulate_fields on_speech_fields)
    have "(now - last_speech_time r' > silence_duration (rec_cfg r) \<longrightarrow> should_stop r')
       \<and> (now - recording_start_time r > max_record_time (rec_cfg r) \<longrightarrow> should_stop r')"
      using st f by (simp add: r' accumulate_fields on_speech_fields)
    then have both: "(now - last_speech_time r' > silence_duration (rec_cfg r) \<longrightarrow> should_stop r')
       \<and> (now - recording_start_time r > max_record_time (rec_cfg r) \<longrightarrow> should_stop r')" .
    have later: "\<forall>t. recording_start_time r \<le> t \<and> now - t > max_record_time (rec_cfg r) \<longrightarrow>
              should_stop r'"
    proof (intro allI impI)
      fix t assume "recording_start_time r \<le> t \<and> now - t > max_record_time (rec_cfg r)"
      then have "now - recording_start_time r > max_record_time (rec_cfg r)" by linarith
      then show "should_stop r'" using both by blast
    qed
    show "(last_speech_time r' = now \<or> last_speech_time r' = last_speech_time r)
       \<and> (now - last_speech_time r' > silence_duration (rec_cfg r) \<longrightarrow> should_stop r')
       \<and> (now - recording_start_time r > max_record_time (rec_cfg r) \<longrightarrow> should_stop r')
       \<and> (\<forall>t. recording_start_time r \<le> t \<and> now - t > max_record_time (rec_cfg r) \<longrightarrow>
              should_stop r')"
      using lst both later by blast
  qed
  have cap: "(useEnergyVAD (rec_cfg r) \<or> vad_detector r = None)
        \<and> computeEnergyVAD frame > trigger_threshold (rec_cfg r)
        \<and> now - recording_start_time r > max_record_time (rec_cfg r) \<longrightarrow>
         (\<exists>r'. processAudioFrame r frame now = Inr r' \<and> speech_detected r'
               \<and> last_speech_time r' = now \<and> should_stop r')"
  proof
    assume h: "(useEnergyVAD (rec_cfg r) \<or> vad_detector r = None)
        \<and> computeEnergyVAD frame > trigger_threshold (rec_cfg r)
        \<and> now - recording_start_time r > max_record_time (rec_cfg r)"
    let ?r1 = "push_pre_speech r frame"
    let ?r2 = "on_speech True now ?r1"
    have d: "detect_speech ?r1 frame = Inr (True, ?r1)"
      using detect_speech_energy[of ?r1 frame] h by (simp add: push_pre_speech_fields)
    have p: "processAudioFrame r frame now = Inr (accumulate frame now ?r2)"
      using d by (simp add: processAudioFrame_def bind_fault_def)
    have sd: "speech_detected ?r2" by (simp add: on_speech_fields)
    have "should_stop (accumulate frame now ?r2)"
      using accumulate_stops[OF sd, of now frame] h
      by (simp add: on_speech_fields push_pre_speech_fields)
    then show "\<exists>r'. processAudioFrame r frame now = Inr r' \<and> speech_detected r'
               \<and> last_speech_time r' = now \<and> should_stop r'"
      using p sd by (simp add: accumulate_fields on_speech_fields)
  qed
  show ?thesis using returns stops cap by blast
qed

lemma energy_of_silence: "computeEnergyVAD [0, 0] = 0"
  by (simp add: computeEnergyVAD_def)

lemma energy_of_speech: "computeEnergyVAD [1, 1] = 1"
  by (simp add: computeEnergyVAD_def)

lemma silence_callback_example:
  "processAudioFrame (new_recorder\<lparr>speech_detected := True\<rparr>) [0, 0] (3 / 2)
     = Inr (new_recorder\<lparr>speech_detected := True, pre_speech_buffer := [0, 0],
              audio_buffer := [0, 0], should_stop := True\<rparr>)"
  by (simp add: new_recorder_def processAudioFrame_def bind_fault_def
        push_pre_speech_def detect_speech_def useEnergyVAD_def energy_of_silence
        on_speech_def accumulate_def default_recorder_config_def to_size_t_def Let_def)

theorem processAudioFrame_stops_witness:
  "useEnergyVAD (rec_cfg (start_session 0 new_recorder))
   \<and> computeEnergyVAD [1, 1] > trigger_threshold (rec_cfg (start_session 0 new_recorder))
   \<and> 6 - recording_start_time (start_session 0 new_recorder)
        > max_record_time (rec_cfg (start_session 0 new_recorder))
   \<and> (\<exists>r'. processAudioFrame (start_session 0 new_recorder) [1, 1] 6 = Inr r'
          \<and> speech_detected r' \<and> last_speech_time r' = 6 \<and> should_stop r')
   \<and> processAudioFrame (new_recorder\<lparr>speech_detected := True\<rparr>) [0, 0] (3 / 2)
        = Inr (new_recorder\<lparr>speech_detected := True, pre_speech_buffer := [0, 0],
                 audio_buffer := [0, 0], should_stop := True\<rparr>)
   \<and> speech_detected (new_recorder\<lparr>speech_detected := True, pre_speech_buffer := [0, 0],
                 audio_buffer := [0, 0], should_stop := True\<rparr>)
   \<and> 3 / 2 - last_speech_time (new_recorder\<lparr>speech_detected := True,
                 pre_speech_buffer := [0, 0], audio_buffer := [0, 0], should_stop := True\<rparr>)
        > silence_duration (rec_cfg (new_recorder\<lparr>speech_detected := True\<rparr>))
   \<and> should_stop (new_recorder\<lparr>speech_detected := True, pre_speech_buffer := [0, 0],
                 audio_buffer := [0, 0], should_stop := True\<rparr>)"
proof -
  let ?r = "start_session 0 new_recorder"
  let ?q = "new_recorder\<lparr>speech_detected := True\<rparr>"
  let ?q' = "new_recorder\<lparr>speech_detected := True, pre_speech_buffer := [0, 0],
                 audio_buffer := [0, 0], should_stop := True\<rparr>"
  have c: "rec_cfg ?r = default_recorder_config" "recording_start_time ?r = 0"
    by (simp_all add: start_session_def new_recorder_def)
  have h: "(useEnergyVAD (rec_cfg ?r) \<or> vad_detector ?r = None)
        \<and> computeEnergyVAD [1, 1] > trigger_threshold (rec_cfg ?r)
        \<and> 6 - recording_start_time ?r > max_record_time (rec_cfg ?r)"
    by (simp add: c energy_of_speech useEnergyVAD_def default_recorder_config_def)
  from processAudioFrame_stops[of ?r "[1, 1]" 6] h
  have cap: "\<exists>r'. processAudioFrame ?r [1, 1] 6 = Inr r' \<and> speech_detected r'
               \<and> last_speech_time r' = 6 \<and> should_stop r'"
    by blast
  have sd: "speech_detected ?q'" by simp
  have late: "3 / 2 - last_speech_time ?q' > silence_duration (rec_cfg ?q)"
    by (simp add: new_recorder_def default_recorder_config_def)
  from processAudioFrame_stops[of ?q "[0, 0]" "3 / 2"] silence_callback_example sd late
  have stop: "should_stop ?q'" by blast
  have e: "useEnergyVAD (rec_cfg ?r)"
    "computeEnergyVAD [1, 1] > trigger_threshold (rec_cfg ?r)"
    "6 - recording_start_time ?r > max_record_time (rec_cfg ?r)"
    using h by (simp_all add: c useEnergyVAD_def default_recorder_config_def)
  show ?thesis
    using e cap silence_callback_example sd late stop by blast
qed

subsection \<open>The trigger frame in the accumulated buffer\<close>

lemma processAudioFrame_buffers:
  assumes "processAudioFrame r frame now = Inr r'"
  shows "pre_speech_buffer r' = pre_speech_buffer (push_pre_speech r frame)"
    and "\<not> speech_detected r \<Longrightarrow> speech_detected r' \<Longrightarrow>
           audio_buffer r' = audio_buffer r @ pre_speech_buffer r' @ frame"
    and "\<not> speech_detected r' \<Longrightarrow> audio_buffer r' = audio_buffer r"
    and "speech_detected r \<Longrightarrow> audio_buffer r' = audio_buffer r @ frame"
    and "speech_detected r \<Longrightarrow> speech_detected r'"
proof -
  from assms obtain is_speech r1 where
    r': "r' = accumulate frame now (on_speech is_speech now r1)"
    and f: "audio_buffer r1 = audio_buffer r"
      "pre_speech_buffer r1 = pre_speech_buffer (push_pre_speech r frame)"
      "speech_detected r1 = speech_detected r"
    by (auto elim: processAudioFrame_split)
  show "pre_speech_buffer r' = pre_speech_buffer (push_pre_speech r frame)"
    by (simp add: r' f accumulate_fields on_speech_fields)
  show "\<not> speech_detected r \<Longrightarrow> speech_detected r' \<Longrightarrow>
           audio_buffer r' = audio_buffer r @ pre_speech_buffer r' @ frame"
    by (simp add: r' f accumulate_fields on_speech_fields)
  show "\<not> speech_detected r' \<Longrightarrow> audio_buffer r' = audio_buffer r"
    by (simp add: r' f accumulate_fields on_speech_fields)
  show "speech_detected r \<Longrightarrow> audio_buffer r' = audio_buffer r @ frame"
    by (simp add: r' f accumulate_fields on_speech_fields)
  show "speech_detected r \<Longrightarrow> speech_detected r'"
    by (simp add: r' f accumulate_fields on_speech_fields)
qed

lemma callbacks_idle_buffer_empty:
  "callbacks r evs = Inr r' \<Longrightarrow> \<not> speech_detected r \<longrightarrow> audio_buffer r = [] \<Longrightarrow>
     \<not> speech_detected r' \<longrightarrow> audio_buffer r' = []"
proof (induction evs arbitrary: r)
  case Nil
  then show ?case by simp
next
  case (Cons ev evs)
  obtain frame now where ev: "ev = (frame, now)" by (cases ev)
  show ?case
  proof (cases "should_stop r")
    case True
    then show ?thesis using Cons.prems ev by simp
  next
    case False
    then obtain r1 where s: "processAudioFrame r frame now = Inr r1"
      and c: "callbacks r1 evs = Inr r'"
      using Cons.prems(1) ev by (auto simp: bind_fault_def split: sum.splits)
    have "\<not> speech_detected r1 \<longrightarrow> audio_buffer r1 = []"
      using processAudioFrame_buffers(3,5)[OF s] Cons.prems(2) by auto
    then show ?thesis using Cons.IH[OF c] by simp
  qed
qed

lemma callbacks_buffer_grows:
  "callbacks r evs = Inr r' \<Longrightarrow> speech_detected r \<Longrightarrow>
     \<exists>appended. audio_buffer r' = audio_buffer r @ appended"
proof (induction evs arbitrary: r)
  case Nil
  then show ?case by simp
next
  case (Cons ev evs)
  obtain frame now where ev: "ev = (frame, now)" by (cases ev)
  show ?case
  proof (cases "should_stop r")
    case True
    then show ?thesis using Cons.prems ev by simp
  next
    case False
    then obtain r1 where s: "processAudioFrame r frame now = Inr r1"
      and c: "callbacks r1 evs = Inr r'"
      using Cons.prems(1) ev by (auto simp: bind_fault_def split: sum.splits)
    have sd: "speech_detected r1" and b: "audio_buffer r1 = audio_buffer r @ frame"
      using processAudioFrame_buffers(4,5)[OF s] Cons.prems(2) by auto
    from Cons.IH[OF c sd] obtain appended where "audio_buffer r' = audio_buffer r1 @ appended" by blast
    then show ?thesis using b by simp
  qed
qed

text \<open>
  Claim C10. Take a session: the reset of \<open>recordAudio\<close>, then callbacks. If the
  callbacks so far left the machine idle and the next callback, with frame \<open>frame\<close>,
  detects speech, then after it the pre-speech buffer is its bounded earlier content
  followed by \<open>frame\<close>, and the accumulated buffer is that whole pre-speech buffer
  followed by \<open>frame\<close> once more. Every later callback of the session only appends to
  the accumulated buffer, so the final recording starts with the ring and the duplicate.
\<close>

theorem trigger_frame_recorded_twice:
  assumes "callbacks (start_session t0 r0) before = Inr r"
    and "\<not> speech_detected r"
    and "processAudioFrame r frame now = Inr r'"
    and "speech_detected r'"
    and "callbacks r' later = Inr r''"
  shows "\<exists>ring appended.
           pre_speech_buffer r' = ring @ frame
         \<and> ring = (if int (length (pre_speech_buffer r))
                         > to_size_t (frames_per_buffer (rec_cfg r) * 10)
                    then drop (nat (frames_per_buffer (rec_cfg r))) (pre_speech_buffer r)
                    else pre_speech_buffer r)
         \<and> audio_buffer r' = ring @ frame @ frame
         \<and> audio_buffer r'' = ring @ frame @ frame @ appended"
proof -
  have "\<not> speech_detected (start_session t0 r0) \<longrightarrow> audio_buffer (start_session t0 r0) = []"
    by (simp add: start_session_def)
  from callbacks_idle_buffer_empty[OF assms(1) this] assms(2)
  have empty: "audio_buffer r = []" by simp
  let ?ring = "if int (length (pre_speech_buffer r))
                         > to_size_t (frames_per_buffer (rec_cfg r) * 10)
                    then drop (nat (frames_per_buffer (rec_cfg r))) (pre_speech_buffer r)
                    else pre_speech_buffer r"
  have pre: "pre_speech_buffer r' = ?ring @ frame"
    using processAudioFrame_buffers(1)[OF assms(3)] by (simp add: push_pre_speech_def Let_def)
  have buf: "audio_buffer r' = ?ring @ frame @ frame"
    using processAudioFrame_buffers(2)[OF assms(3) assms(2) assms(4)] pre empty by simp
  from callbacks_buffer_grows[OF assms(5) assms(4)] obtain appended where
    "audio_buffer r'' = audio_buffer r' @ appended" by blast
  then have "audio_buffer r'' = ?ring @ frame @ frame @ appended" using buf by simp
  then show ?thesis using pre buf by blast
qed

lemma idle_callback_example:
  "callbacks (start_session 0 new_recorder) [([0, 0], 1 / 10)]
     = Inr (new_recorder\<lparr>pre_speech_buffer := [0, 0]\<rparr>)"
  by (simp add: start_session_def new_recorder_def processAudioFrame_def bind_fault_def
        push_pre_speech_def detect_speech_def useEnergyVAD_def energy_of_silence
        on_speech_def accumulate_def default_recorder_config_def to_size_t_def Let_def)

lemma trigger_callback_example:
  "processAudioFrame (new_recorder\<lparr>pre_speech_buffer := [0, 0]\<rparr>) [1, 1] (2 / 10)
     = Inr (new_recorder\<lparr>pre_speech_buffer := [0, 0, 1, 1], last_speech_time := 2 / 10,
              speech_detected := True, audio_buffer := [0, 0, 1, 1, 1, 1]\<rparr>)"
  by (simp add: new_recorder_def processAudioFrame_def bind_fault_def
        push_pre_speech_def detect_speech_def useEnergyVAD_def energy_of_speech
        on_speech_def accumulate_def default_recorder_config_def to_size_t_def Let_def)

lemma later_callback_example:
  "callbacks (new_recorder\<lparr>pre_speech_buffer := [0, 0, 1, 1], last_speech_time := 2 / 10,
              speech_detected := True, audio_buffer := [0, 0, 1, 1, 1, 1]\<rparr>)
     [([1, 1], 3 / 10)]
     = Inr (new_recorder\<lparr>pre_speech_buffer := [0, 0, 1, 1, 1, 1], last_speech_time := 3 / 10,
              speech_detected := True, audio_buffer := [0, 0, 1, 1, 1, 1, 1, 1]\<rparr>)"
  by (simp add: new_recorder_def processAudioFrame_def bind_fault_def
        push_pre_speech_def detect_speech_def useEnergyVAD_def energy_of_speech
        on_speech_def accumulate_def default_recorder_config_def to_size_t_def Let_def)

theorem trigger_frame_recorded_twice_witness:
  "callbacks (start_session 0 new_recorder) [([0, 0], 1 / 10)]
     = Inr (new_recorder\<lparr>pre_speech_buffer := [0, 0]\<rparr>)
   \<and> \<not> speech_detected (new_recorder\<lparr>pre_speech_buffer := [0, 0]\<rparr>)
   \<and> processAudioFrame (new_recorder\<lparr>pre_speech_buffer := [0, 0]\<rparr>) [1, 1] (2 / 10)
     = Inr (new_recorder\<lparr>pre_speech_buffer := [0, 0, 1, 1], last_speech_time := 2 / 10,
              speech_detected := True, audio_buffer := [0, 0, 1, 1, 1, 1]\<rparr>)
   \<and> (\<exists>ring appended.
         pre_speech_buffer (new_recorder\<lparr>pre_speech_buffer := [0, 0, 1, 1],
              last_speech_time := 2 / 10, speech_detected := True,
              audio_buffer := [0, 0, 1, 1, 1, 1]\<rparr>) = ring @ [1, 1]
       \<and> ring = [0, 0]
       \<and> audio_buffer (new_recorder\<lparr>pre_speech_buffer := [0, 0, 1, 1],
              last_speech_time := 2 / 10, speech_detected := True,
              audio_buffer := [0, 0, 1, 1, 1, 1]\<rparr>) = ring @ [1, 1] @ [1, 1]
       \<and> audio_buffer (new_recorder\<lparr>pre_speech_buffer := [0, 0, 1, 1, 1, 1],
              last_speech_time := 3 / 10, speech_detected := True,
              audio_buffer := [0, 0, 1, 1, 1, 1, 1, 1]\<rparr>) = ring @ [1, 1] @ [1, 1] @ appended)"
proof -
  let ?r = "new_recorder\<lparr>pre_speech_buffer := [0, 0]\<rparr>"
  let ?r' = "new_recorder\<lparr>pre_speech_buffer := [0, 0, 1, 1], last_speech_time := 2 / 10,
              speech_detected := True, audio_buffer := [0, 0, 1, 1, 1, 1]\<rparr>"
  let ?r'' = "new_recorder\<lparr>pre_speech_buffer := [0, 0, 1, 1, 1, 1], last_speech_time := 3 / 10,
              speech_detected := True, audio_buffer := [0, 0, 1, 1, 1, 1, 1, 1]\<rparr>"
  have idle: "\<not> speech_detected ?r" by (simp add: new_recorder_def)
  have rec: "speech_detected ?r'" by simp
  have ring: "(if int (length (pre_speech_buffer ?r))
                         > to_size_t (frames_per_buffer (rec_cfg ?r) * 10)
                    then drop (nat (frames_per_buffer (rec_cfg ?r))) (pre_speech_buffer ?r)
                    else pre_speech_buffer ?r) = [0, 0]"
    by (simp add: new_recorder_def default_recorder_config_def to_size_t_def)
  from trigger_frame_recorded_twice[OF idle_callback_example idle trigger_callback_example
         rec later_callback_example]
  have "\<exists>ring appended.
           pre_speech_buffer ?r' = ring @ [1, 1]
         \<and> ring = [0, 0]
         \<and> audio_buffer ?r' = ring @ [1, 1] @ [1, 1]
         \<and> audio_buffer ?r'' = ring @ [1, 1] @ [1, 1] @ appended"
    unfolding ring .
  then show ?thesis
    using idle_callback_example idle trigger_callback_example by blast
qed

end
